theory Spec2Isabelle
  imports Complex_Main "HOL-Library.Word"
begin

section \<open>The Hokuyo driver of hokuyo_node.cpp\<close>

text \<open>
  The theory embeds class \<open>HokuyoDriver\<close> (\<open>doOpen\<close>, \<open>doClose\<close>, \<open>doStart\<close>,
  \<open>doStop\<close>, \<open>getID\<close>, \<open>config_update\<close>, \<open>scanThread\<close>) and
  \<open>HokuyoNode::connectionStatus\<close>. The device library \<open>hokuyo::Laser\<close> is not part
  of the file: every call on \<open>laser_\<close> takes its outcome from an environment record,
  and the driver keeps the list of the calls it has made. A member function is a function
  from the environment and the object before the call to the object after it.
\<close>

subsection \<open>The device library, as the driver sees it\<close>

text \<open>
  \<open>hokuyo::CorruptedDataException\<close> is the one subclass of \<open>hokuyo::Exception\<close> that
  the file handles apart (in \<open>scanThread\<close>); \<open>Exception\<close> stands for every other
  \<open>hokuyo::Exception\<close>. Both carry the text of \<open>what()\<close>.
\<close>

datatype hokuyo_exception = Exception string | CorruptedDataException string

fun what :: "hokuyo_exception \<Rightarrow> string" where
  "what (Exception m) = m"
| "what (CorruptedDataException m) = m"

datatype 'a outcome = Returns 'a | Throws hokuyo_exception

fun returned :: "'a outcome \<Rightarrow> bool" where
  "returned (Returns v) = True"
| "returned (Throws x) = False"

text \<open>
  What the device answers to each call that one step of the program can make. Every
  member function below calls each operation of \<open>laser_\<close> at most once, so one record
  describes the device during one step. \<open>serviceScan\<close> returns its status and the frame
  it has written into its reference argument.
\<close>

record 'scan laser_env =
  open_r :: "unit outcome"
  close_r :: "unit outcome"
  getID_r :: "string outcome"
  getStatus_r :: "string outcome"
  laserOn_r :: "unit outcome"
  calcLatency_r :: "unit outcome"
  requestScans_r :: "int outcome"
  serviceScan_r :: "(int \<times> 'scan) outcome"
  stopScanning_r :: "unit outcome"

text \<open>The calls on \<open>laser_\<close>, with the arguments the driver passes.\<close>

datatype laser_call =
    Laser_open string bool
  | Laser_close
  | Laser_getID
  | Laser_getStatus
  | Laser_laserOn
  | Laser_calcLatency bool real real int int
  | Laser_requestScans bool real real int int
  | Laser_serviceScan
  | Laser_stopScanning

subsection \<open>The driver object\<close>

text \<open>
  Modelled from the spec: the type of \<open>state_\<close> and its constants \<open>CLOSED\<close>,
  \<open>OPENED\<close>, \<open>RUNNING\<close> (section 3, "OperatingState: enumeration {Closed, Opened,
  Running}"). The member is inherited from \<open>driver_base::Driver\<close>, whose header is not
  part of the repository's file.
\<close>

datatype state_t = CLOSED | OPENED | RUNNING

text \<open>The fields of \<open>hokuyo_node::HokuyoConfig\<close> that the driver reads.\<close>

record HokuyoConfig =
  port :: string
  model_04LX :: bool
  calibrate_time :: bool
  intensity :: bool
  min_ang :: real
  max_ang :: real
  cluster :: int
  skip :: int

text \<open>
  A thread running \<open>scanThread\<close>, by the place it has reached: at the test of the
  \<open>while\<close>, inside \<open>laser_.serviceScan\<close>, or returned.
\<close>

datatype thread_pc = AtLoopHead | InServiceScan | Finished

text \<open>
  The members of \<open>HokuyoDriver\<close>, named as in the source without the final
  underscore. \<open>laser_\<close> is the record of the calls made on the
  device, each with whether it returned; \<open>useScan_\<close> is the list of frames the registered
  callback has been invoked with, oldest first; \<open>threads_spawned\<close> counts the
  \<open>boost::thread\<close> objects created. \<open>scan_thread_\<close> is the thread the pointer refers
  to, if any; \<open>detached\<close> lists the threads the pointer has been taken from while they
  had not returned: they go on running \<open>scanThread\<close> on the same object. The two counters
  are C++ \<open>int\<close>: 32-bit words, read as signed by \<open>sint\<close>, whose increment wraps around.
\<close>

record 'scan HokuyoDriver =
  state :: state_t
  useScan :: "'scan list"
  scan_thread :: "thread_pc option"
  detached :: "thread_pc list"
  threads_spawned :: nat
  device_status :: string
  device_id :: string
  connect_fail :: string
  scan :: 'scan
  laser :: "(laser_call \<times> bool) list"
  calibrated :: bool
  lost_scan_thread_count :: "32 word"
  corrupted_scan_count :: "32 word"
  config :: HokuyoConfig

text \<open>
  Modelled from the spec: the value \<open>CLOSED\<close> that the constructor of the base class
  gives \<open>state_\<close> (section 3, "constructed once per process with OperatingState =
  Closed"). The rest is the constructor of lines 143-148 and the default constructors of
  the members: empty strings, no thread. The configuration and the content of \<open>scan_\<close>
  are parameters.
\<close>

definition HokuyoDriver :: "HokuyoConfig \<Rightarrow> 'scan \<Rightarrow> 'scan HokuyoDriver" where
  "HokuyoDriver cfg sc =
     \<lparr>state = CLOSED, useScan = [], scan_thread = None, detached = [], threads_spawned = 0,
      device_status = [], device_id = [], connect_fail = [], scan = sc, laser = [],
      calibrated = False, lost_scan_thread_count = 0, corrupted_scan_count = 0,
      config = cfg\<rparr>"

definition config_update :: "HokuyoConfig \<Rightarrow> 'scan HokuyoDriver \<Rightarrow> 'scan HokuyoDriver" where
  "config_update new_config d = d\<lparr>config := new_config\<rparr>"

subsection \<open>Calls on the device inside a try block\<close>

text \<open>\<open>called c r\<close> adds to the record of calls that \<open>c\<close> was made and answered by \<open>r\<close>.\<close>

definition called :: "laser_call \<Rightarrow> 'a outcome \<Rightarrow> 'scan HokuyoDriver \<Rightarrow> 'scan HokuyoDriver" where
  "called c r d = d\<lparr>laser := laser d @ [(c, returned r)]\<rparr>"

text \<open>
  A piece of a \<open>try\<close> body maps the object to the object it leaves and the exception that
  left it, if any. \<open>call c r k\<close> makes the call \<open>c\<close>; when the device's answer \<open>r\<close> is
  an exception the rest \<open>k\<close> of the body is skipped.
\<close>

type_synonym 'scan try_body = "'scan HokuyoDriver \<Rightarrow> hokuyo_exception option \<times> 'scan HokuyoDriver"

definition call :: "laser_call \<Rightarrow> 'a outcome \<Rightarrow> ('a \<Rightarrow> 'scan try_body) \<Rightarrow> 'scan try_body" where
  "call c r k d =
     (case r of Throws x \<Rightarrow> (Some x, called c r d) | Returns v \<Rightarrow> k v (called c r d))"

definition done_try :: "'scan try_body" where
  "done_try d = (None, d)"

subsection \<open>The pointer to the thread\<close>

text \<open>
  \<open>scan_thread_.reset(p)\<close> makes the pointer refer to \<open>p\<close> (to nothing for
  \<open>reset()\<close>). The \<open>boost::thread\<close> object it referred to is destroyed, which does not
  stop the thread: one that has not returned goes on, detached.
\<close>

definition reset_scan_thread :: "thread_pc option \<Rightarrow> 'scan HokuyoDriver \<Rightarrow> 'scan HokuyoDriver" where
  "reset_scan_thread p d =
     d\<lparr>detached :=
         (case scan_thread d of
            None \<Rightarrow> detached d
          | Some Finished \<Rightarrow> detached d
          | Some pc \<Rightarrow> detached d @ [pc]),
       scan_thread := p\<rparr>"

subsection \<open>getID (lines 240-246)\<close>

text \<open>
  The value of \<open>getID\<close> is \<open>Inr\<close> of the string it returns, or \<open>Inl\<close> of the exception
  of \<open>laser_.getID\<close>, which it lets through.
\<close>

definition getID :: "'scan laser_env \<Rightarrow> 'scan HokuyoDriver
    \<Rightarrow> (hokuyo_exception + string) \<times> 'scan HokuyoDriver" where
  "getID e d =
     (let d' = called Laser_getID (getID_r e) d
      in case getID_r e of
           Throws x \<Rightarrow> (Inl x, d')
         | Returns ident \<Rightarrow>
             if ident = ''H0000000'' then (Inr ''unknown'', d') else (Inr ident, d'))"

subsection \<open>doClose (lines 187-197)\<close>

text \<open>An exception of \<open>laser_.close\<close> is caught and logged; the state is set in any case.\<close>

definition doClose :: "'scan laser_env \<Rightarrow> 'scan HokuyoDriver \<Rightarrow> 'scan HokuyoDriver" where
  "doClose e d = (called Laser_close (close_r e) d)\<lparr>state := CLOSED\<rparr>"

subsection \<open>doOpen (lines 150-185)\<close>

definition doOpen_try :: "'scan laser_env \<Rightarrow> 'scan try_body" where
  "doOpen_try e d =
     (let d1 = d\<lparr>device_id := ''unknown'', device_status := ''unknown''\<rparr>;
          cfg = config d1
      in call (Laser_open (port cfg) (model_04LX cfg)) (open_r e) (\<lambda>_ d2.
         case getID e d2 of
           (Inl x, d3) \<Rightarrow> (Some x, d3)
         | (Inr ident, d3) \<Rightarrow>
         call Laser_getStatus (getStatus_r e) (\<lambda>st d4.
           (let d5 = d4\<lparr>device_status := st\<rparr>
            in if calibrate_time cfg \<and> \<not> calibrated d5
               then call Laser_laserOn (laserOn_r e) (\<lambda>_.
                    call (Laser_calcLatency (\<not> model_04LX cfg \<and> intensity cfg)
                            (min_ang cfg) (max_ang cfg) (cluster cfg) (skip cfg))
                         (calcLatency_r e) (\<lambda>_ d6.
                    done_try (d6\<lparr>calibrated := True, state := OPENED\<rparr>))) d5
               else done_try (d5\<lparr>state := OPENED\<rparr>)))
           (d3\<lparr>device_id := ident\<rparr>)) d1)"

text \<open>The \<open>catch\<close> of \<open>doOpen\<close>: the message is kept and \<open>doClose\<close> is called.\<close>

definition doOpen :: "'scan laser_env \<Rightarrow> 'scan HokuyoDriver \<Rightarrow> 'scan HokuyoDriver" where
  "doOpen e d =
     (case doOpen_try e d of
        (None, d') \<Rightarrow> d'
      | (Some x, d') \<Rightarrow> doClose e (d'\<lparr>connect_fail := what x\<rparr>))"

subsection \<open>doStart (lines 199-223)\<close>

definition doStart_try :: "'scan laser_env \<Rightarrow> 'scan try_body" where
  "doStart_try e d =
     (let cfg = config d
      in call Laser_laserOn (laserOn_r e) (\<lambda>_.
         call (Laser_requestScans (\<not> model_04LX cfg \<and> intensity cfg)
                 (min_ang cfg) (max_ang cfg) (cluster cfg) (skip cfg))
              (requestScans_r e) (\<lambda>status d1.
           if status \<noteq> 0
           then done_try (d1\<lparr>corrupted_scan_count := corrupted_scan_count d1 + 1\<rparr>)
           else done_try
                  (reset_scan_thread (Some AtLoopHead)
                     (d1\<lparr>state := RUNNING, threads_spawned := Suc (threads_spawned d1)\<rparr>))))
           d)"

definition doStart :: "'scan laser_env \<Rightarrow> 'scan HokuyoDriver \<Rightarrow> 'scan HokuyoDriver" where
  "doStart e d =
     (case doStart_try e d of
        (None, d') \<Rightarrow> d'
      | (Some x, d') \<Rightarrow> doClose e (d'\<lparr>connect_fail := what x\<rparr>))"

subsection \<open>scanThread (lines 253-280)\<close>

text \<open>
  An exception that leaves \<open>scanThread\<close> leaves the thread's function: the process is
  terminated. A step of the program that ends so has the value \<open>Inl\<close>.
\<close>

datatype abort = Uncaught hokuyo_exception

text \<open>
  The functions below are the code of \<open>scanThread\<close> for any thread that runs it: they take
  the object and give the place the thread reaches with the object as it leaves it.

  The code after the loop (lines 278-279); \<open>stopScanning\<close> is outside every \<open>try\<close>.
\<close>

definition scanThread_exit :: "'scan laser_env \<Rightarrow> 'scan HokuyoDriver
    \<Rightarrow> abort + thread_pc \<times> 'scan HokuyoDriver" where
  "scanThread_exit e d =
     (let d1 = called Laser_stopScanning (stopScanning_r e) d
      in case stopScanning_r e of
           Throws x \<Rightarrow> Inl (Uncaught x)
         | Returns _ \<Rightarrow> Inr (Finished, d1\<lparr>state := OPENED\<rparr>))"

text \<open>
  The body of the loop from the call of \<open>serviceScan\<close> on (lines 257-275): \<open>break\<close> on a
  status other than 0, \<open>continue\<close> on corrupted data, \<open>doClose\<close> and \<open>return\<close> on any
  other exception, the callback on \<open>scan_\<close> otherwise.
\<close>

definition scanThread_body :: "'scan laser_env \<Rightarrow> 'scan HokuyoDriver
    \<Rightarrow> abort + thread_pc \<times> 'scan HokuyoDriver" where
  "scanThread_body e d =
     (let d1 = called Laser_serviceScan (serviceScan_r e) d
      in case serviceScan_r e of
           Returns (status, sc) \<Rightarrow>
             (let d2 = d1\<lparr>scan := sc\<rparr>
              in if status \<noteq> 0 then scanThread_exit e d2
                 else Inr (AtLoopHead, d2\<lparr>useScan := useScan d2 @ [scan d2]\<rparr>))
         | Throws (CorruptedDataException m) \<Rightarrow> Inr (AtLoopHead, d1)
         | Throws (Exception m) \<Rightarrow> Inr (Finished, doClose e d1))"

text \<open>
  One step of a thread at the place \<open>pc\<close>: the test of the \<open>while\<close> (line 255), or the
  rest of an iteration once \<open>serviceScan\<close> comes back. A thread that has returned does
  nothing.
\<close>

definition scanThread_at :: "'scan laser_env \<Rightarrow> thread_pc \<Rightarrow> 'scan HokuyoDriver
    \<Rightarrow> abort + thread_pc \<times> 'scan HokuyoDriver" where
  "scanThread_at e pc d =
     (case pc of
        Finished \<Rightarrow> Inr (Finished, d)
      | AtLoopHead \<Rightarrow>
          if state d = RUNNING then Inr (InServiceScan, d) else scanThread_exit e d
      | InServiceScan \<Rightarrow> scanThread_body e d)"

text \<open>One step of the thread that \<open>scan_thread_\<close> points to; no thread does nothing.\<close>

definition scanThread_step :: "'scan laser_env \<Rightarrow> 'scan HokuyoDriver \<Rightarrow> abort + 'scan HokuyoDriver" where
  "scanThread_step e d =
     (case scan_thread d of
        None \<Rightarrow> Inr d
      | Some pc \<Rightarrow>
          (case scanThread_at e pc d of
             Inl a \<Rightarrow> Inl a
           | Inr (pc', d') \<Rightarrow> Inr (d'\<lparr>scan_thread := Some pc'\<rparr>)))"

text \<open>One step of the \<open>i\<close>-th detached thread; an index beyond the list does nothing.\<close>

definition detached_step :: "nat \<Rightarrow> 'scan laser_env \<Rightarrow> 'scan HokuyoDriver \<Rightarrow> abort + 'scan HokuyoDriver" where
  "detached_step i e d =
     (if i < length (detached d)
      then (case scanThread_at e (detached d ! i) d of
              Inl a \<Rightarrow> Inl a
            | Inr (pc', d') \<Rightarrow> Inr (d'\<lparr>detached := (detached d')[i := pc']\<rparr>))
      else Inr d)"

text \<open>A step of one of the threads: the one pointed to, or a detached one.\<close>

datatype 'scan thread_step = Attached "'scan laser_env" | Detached nat "'scan laser_env"

fun do_thread_step :: "'scan thread_step \<Rightarrow> 'scan HokuyoDriver \<Rightarrow> abort + 'scan HokuyoDriver" where
  "do_thread_step (Attached e) d = scanThread_step e d"
| "do_thread_step (Detached i e) d = detached_step i e d"

text \<open>\<open>scanThread\<close> run over the device's answers to its successive steps.\<close>

fun scanThread :: "'scan laser_env list \<Rightarrow> 'scan HokuyoDriver \<Rightarrow> abort + 'scan HokuyoDriver" where
  "scanThread [] d = Inr d"
| "scanThread (e # es) d =
     (case scanThread_step e d of Inl a \<Rightarrow> Inl a | Inr d' \<Rightarrow> scanThread es d')"

subsection \<open>doStop (lines 225-238)\<close>

text \<open>
  \<open>timed_join\<close> of \<open>boost::thread\<close>: the caller waits until the thread pointed to has
  returned or the bound has passed, and learns which. While it waits the threads go on: the
  schedule lists their next steps in the order they end, each with the milliseconds that
  pass before it ends. A step that would end after the bound is not waited for, and an
  empty schedule is threads that never come back from their calls. The result is whether
  the thread pointed to has returned, and the object as the threads have left it.
\<close>

fun timed_join :: "nat \<Rightarrow> (nat \<times> 'scan thread_step) list \<Rightarrow> 'scan HokuyoDriver
    \<Rightarrow> abort + bool \<times> 'scan HokuyoDriver" where
  "timed_join ms [] d = Inr (scan_thread d = Some Finished, d)"
| "timed_join ms ((t, r) # sched) d =
     (if scan_thread d = Some Finished then Inr (True, d)
      else if ms < t then Inr (False, d)
      else (case do_thread_step r d of
              Inl a \<Rightarrow> Inl a
            | Inr d' \<Rightarrow> timed_join (ms - t) sched d'))"

text \<open>
  \<open>doStop\<close> writes \<open>state_\<close> before it waits and resets \<open>scan_thread_\<close> after: a thread
  that has not returned by then is detached.
\<close>

definition doStop :: "(nat \<times> 'scan thread_step) list \<Rightarrow> 'scan HokuyoDriver
    \<Rightarrow> abort + 'scan HokuyoDriver" where
  "doStop sched d =
     (if state d \<noteq> RUNNING then Inr d
      else
        (let d1 = d\<lparr>state := OPENED\<rparr>
         in if scan_thread d1 \<noteq> None
            then (case timed_join 2000 sched d1 of
                    Inl a \<Rightarrow> Inl a
                  | Inr (joined, d2) \<Rightarrow>
                      if \<not> joined
                      then Inr (reset_scan_thread None
                             (d2\<lparr>lost_scan_thread_count := lost_scan_thread_count d2 + 1\<rparr>))
                      else Inr (reset_scan_thread None d2))
            else Inr (reset_scan_thread None d1)))"

subsection \<open>Runs of the driver\<close>

text \<open>
  The calls of the controlling thread, and the steps the acquisition threads make between
  two of them: \<open>Thread\<close> is a step of the thread pointed to, \<open>Abandoned i\<close> a step of the
  \<open>i\<close>-th detached thread. Open, close and start do not wait for a thread; stop does, and
  the steps the threads make meanwhile are part of the call (its schedule). The calls are
  the member functions of the file: the public wrappers of \<open>driver_base::Driver\<close> that reach
  them are not part of the repository's file.
\<close>

datatype 'scan event =
    Open "'scan laser_env"
  | Close "'scan laser_env"
  | Start "'scan laser_env"
  | Stop "(nat \<times> 'scan thread_step) list"
  | Thread "'scan laser_env"
  | Abandoned nat "'scan laser_env"

fun step :: "'scan event \<Rightarrow> 'scan HokuyoDriver \<Rightarrow> abort + 'scan HokuyoDriver" where
  "step (Open e) d = Inr (doOpen e d)"
| "step (Close e) d = Inr (doClose e d)"
| "step (Start e) d = Inr (doStart e d)"
| "step (Stop sched) d = doStop sched d"
| "step (Thread e) d = scanThread_step e d"
| "step (Abandoned i e) d = detached_step i e d"

fun exec :: "'scan event list \<Rightarrow> 'scan HokuyoDriver \<Rightarrow> abort + 'scan HokuyoDriver" where
  "exec [] d = Inr d"
| "exec (ev # evs) d = (case step ev d of Inl a \<Rightarrow> Inl a | Inr d' \<Rightarrow> exec evs d')"

subsection \<open>HokuyoNode::connectionStatus (lines 402-420)\<close>

text \<open>
  \<open>HokuyoNode\<close> holds the driver (\<open>driver_\<close>, a member of the base class
  \<open>DriverNode\<close>) and a string \<open>connect_fail_\<close> of its own (line 286), which no line of
  the file assigns: it keeps the value of its constructor, the empty string.
\<close>

record 'scan HokuyoNode =
  driver :: "'scan HokuyoDriver"
  node_connect_fail :: string

definition HokuyoNode :: "HokuyoConfig \<Rightarrow> 'scan \<Rightarrow> 'scan HokuyoNode" where
  "HokuyoNode cfg sc = \<lparr>driver = HokuyoDriver cfg sc, node_connect_fail = []\<rparr>"

text \<open>The level and the message that \<open>connectionStatus\<close> passes to \<open>status.summary\<close>.\<close>

definition connectionStatus :: "'scan HokuyoNode \<Rightarrow> nat \<times> string" where
  "connectionStatus n =
     (if state (driver n) = CLOSED then (2, ''Not connected. '' @ node_connect_fail n)
      else if device_status (driver n) \<noteq> ''Sensor works well.''
        then (2, ''Sensor not operational'')
      else if state (driver n) = RUNNING then (0, ''Sensor streaming.'')
      else if state (driver n) = OPENED then (0, ''Sensor open.'')
      else (2, ''Unknown sensor state.''))"

text \<open>The node after a member function \<open>f\<close> has been called on its driver.\<close>

definition on_driver :: "('scan HokuyoDriver \<Rightarrow> 'scan HokuyoDriver) \<Rightarrow> 'scan HokuyoNode \<Rightarrow> 'scan HokuyoNode" where
  "on_driver f n = n\<lparr>driver := f (driver n)\<rparr>"

section \<open>The vocabulary of the specification\<close>

subsection \<open>Success and failure of open and start\<close>

fun thrown :: "'a outcome \<Rightarrow> hokuyo_exception option" where
  "thrown (Returns v) = None"
| "thrown (Throws x) = Some x"

fun first_thrown :: "hokuyo_exception option list \<Rightarrow> hokuyo_exception option" where
  "first_thrown [] = None"
| "first_thrown (None # xs) = first_thrown xs"
| "first_thrown (Some x # xs) = Some x"

text \<open>
  The device-layer failure of an open: the first exception among the device's answers to
  the open sequence (open, identity, status and, when the calibration is due, emission on
  and calibration). An open succeeds when there is none.
\<close>

definition open_failure :: "'scan laser_env \<Rightarrow> 'scan HokuyoDriver \<Rightarrow> hokuyo_exception option" where
  "open_failure e d =
     first_thrown
       ([thrown (open_r e), thrown (getID_r e), thrown (getStatus_r e)] @
        (if calibrate_time (config d) \<and> \<not> calibrated d
         then [thrown (laserOn_r e), thrown (calcLatency_r e)] else []))"

definition open_succeeds :: "'scan laser_env \<Rightarrow> 'scan HokuyoDriver \<Rightarrow> bool" where
  "open_succeeds e d \<longleftrightarrow> open_failure e d = None"

text \<open>
  A start fails by an exception of the device (emission on, scan request), or by a scan
  request that the device rejects with a status other than 0; it succeeds otherwise.
\<close>

definition start_failure :: "'scan laser_env \<Rightarrow> hokuyo_exception option" where
  "start_failure e = first_thrown [thrown (laserOn_r e), thrown (requestScans_r e)]"

definition start_rejected :: "'scan laser_env \<Rightarrow> bool" where
  "start_rejected e \<longleftrightarrow>
     returned (laserOn_r e) \<and>
     (case requestScans_r e of Returns status \<Rightarrow> status \<noteq> 0 | Throws x \<Rightarrow> False)"

definition start_succeeds :: "'scan laser_env \<Rightarrow> bool" where
  "start_succeeds e \<longleftrightarrow> returned (laserOn_r e) \<and> requestScans_r e = Returns 0"

subsection \<open>The transition table of section 4.1\<close>


text \<open>The calls made on the device between two states of the object.\<close>

definition new_calls :: "'scan HokuyoDriver \<Rightarrow> 'scan HokuyoDriver \<Rightarrow> (laser_call \<times> bool) list" where
  "new_calls d d' = drop (length (laser d)) (laser d')"



text \<open>No detached thread is still running.\<close>

definition none_abandoned :: "'scan HokuyoDriver \<Rightarrow> bool" where
  "none_abandoned d \<longleftrightarrow> list_all (\<lambda>pc. pc = Finished) (detached d)"


subsection \<open>Schedules and scenarios\<close>


text \<open>The device's answer to a frame request: a frame delivered, a fatal fault.\<close>

definition delivers :: "'scan laser_env \<Rightarrow> 'scan \<Rightarrow> bool" where
  "delivers e F \<longleftrightarrow> serviceScan_r e = Returns (0, F)"

definition fatal_fault :: "'scan laser_env \<Rightarrow> bool" where
  "fatal_fault e \<longleftrightarrow>
     (case serviceScan_r e of Throws (Exception m) \<Rightarrow> True | _ \<Rightarrow> False)"

definition transient_fault :: "'scan laser_env \<Rightarrow> bool" where
  "transient_fault e \<longleftrightarrow>
     (case serviceScan_r e of Throws (CorruptedDataException m) \<Rightarrow> True | _ \<Rightarrow> False)"

text \<open>
  One iteration of the loop is two steps of the thread: the test of the loop under the
  device \<open>h\<close>, then the frame request answered by the device \<open>s\<close>.
\<close>

fun iteration :: "'scan laser_env \<times> 'scan laser_env \<Rightarrow> 'scan event list" where
  "iteration (h, s) = [Thread h, Thread s]"

fun is_Start :: "'scan event \<Rightarrow> bool" where
  "is_Start (Start e) = True"
| "is_Start ev = False"

subsection \<open>Calibration calls in the record of calls\<close>

fun is_calcLatency :: "laser_call \<Rightarrow> bool" where
  "is_calcLatency (Laser_calcLatency i a b c s) = True"
| "is_calcLatency c = False"

fun is_stopScanning :: "laser_call \<Rightarrow> bool" where
  "is_stopScanning Laser_stopScanning = True"
| "is_stopScanning c = False"

text \<open>The calibration calls made, and those of them that returned.\<close>

definition calibrations :: "(laser_call \<times> bool) list \<Rightarrow> (laser_call \<times> bool) list" where
  "calibrations cs = filter (\<lambda>c. is_calcLatency (fst c)) cs"

definition calibrations_done :: "(laser_call \<times> bool) list \<Rightarrow> (laser_call \<times> bool) list" where
  "calibrations_done cs = filter (\<lambda>c. is_calcLatency (fst c) \<and> snd c) cs"

text \<open>
  No calibration call follows one that returned: every calibration call but the last one
  threw.
\<close>

definition calibrated_once :: "(laser_call \<times> bool) list \<Rightarrow> bool" where
  "calibrated_once cs \<longleftrightarrow> list_all (\<lambda>c. \<not> snd c) (butlast (calibrations cs))"

text \<open>
  A call either leaves the calibration calls and the flag as they were, or, the flag being
  unset, adds one calibration call and sets the flag if that call returned.
\<close>

definition calibration_step :: "'scan HokuyoDriver \<Rightarrow> 'scan HokuyoDriver \<Rightarrow> bool" where
  "calibration_step d d' \<longleftrightarrow>
     calibrations (laser d') = calibrations (laser d) \<and> calibrated d' = calibrated d
     \<or> \<not> calibrated d \<and>
       (\<exists>c. calibrations (laser d') = calibrations (laser d) @ [(c, calibrated d')])"

text \<open>The invariant: only the last calibration call can have returned, and the flag says so.\<close>

definition calibration_inv :: "'scan HokuyoDriver \<Rightarrow> bool" where
  "calibration_inv d \<longleftrightarrow>
     calibrated_once (laser d) \<and> (calibrated d \<longleftrightarrow> calibrations_done (laser d) \<noteq> [])"

subsection \<open>The object during the wait of a stop\<close>



subsection \<open>A device and a configuration for the examples\<close>

definition ex_config :: HokuyoConfig where
  "ex_config =
     \<lparr>port = ''/dev/ttyACM0'', model_04LX = False, calibrate_time = True, intensity = True,
      min_ang = - 1, max_ang = 1, cluster = 1, skip = 1\<rparr>"

text \<open>A device that answers every call; its frames are numbers.\<close>

definition ex_device :: "nat laser_env" where
  "ex_device =
     \<lparr>open_r = Returns (), close_r = Returns (), getID_r = Returns ''H0904847'',
      getStatus_r = Returns ''Sensor works well.'', laserOn_r = Returns (),
      calcLatency_r = Returns (), requestScans_r = Returns 0,
      serviceScan_r = Returns (0, 0), stopScanning_r = Returns ()\<rparr>"

definition ex_frame :: "nat \<Rightarrow> nat laser_env" where
  "ex_frame F = ex_device\<lparr>serviceScan_r := Returns (0, F)\<rparr>"

definition ex_fatal :: "nat laser_env" where
  "ex_fatal = ex_device\<lparr>serviceScan_r := Throws (Exception ''timeout'')\<rparr>"

definition ex_corrupted :: "nat laser_env" where
  "ex_corrupted = ex_device\<lparr>serviceScan_r := Throws (CorruptedDataException ''checksum'')\<rparr>"

definition ex_no_port :: "nat laser_env" where
  "ex_no_port = ex_device\<lparr>open_r := Throws (Exception ''Failed to open port'')\<rparr>"

definition ex_no_calibration :: "nat laser_env" where
  "ex_no_calibration = ex_device\<lparr>calcLatency_r := Throws (Exception ''timeout'')\<rparr>"

definition ex_rejecting :: "nat laser_env" where
  "ex_rejecting = ex_device\<lparr>requestScans_r := Returns 1\<rparr>"

text \<open>The driver after a successful open and start, its thread inside its first request.\<close>

definition ex_running :: "nat HokuyoDriver" where
  "ex_running =
     (doStart ex_device (doOpen ex_device (HokuyoDriver ex_config 0)))
       \<lparr>scan_thread := Some InServiceScan\<rparr>"


section \<open>Proofs\<close>

subsection \<open>The member functions, field by field\<close>

lemma sint_increment:
  fixes c :: "32 word"
  assumes "sint c < 2147483647"
  shows "sint (c + 1) = sint c + 1"
proof -
  have lo: "- (2 ^ 31) \<le> sint c + 1"
    using sint_ge [of c] by simp
  have hi: "sint c + 1 < 2 ^ 31"
    using assms by simp
  have "sint (c + 1) = signed_take_bit 31 (sint c + sint (1 :: 32 word))"
    by (simp add: sint_word_add)
  also have "\<dots> = signed_take_bit 31 (sint c + 1)"
    by simp
  also have "\<dots> = sint c + 1"
    using lo hi by (simp add: signed_take_bit_int_eq_self)
  finally show ?thesis .
qed

lemma doClose_fields:
  "state (doClose e d) = CLOSED"
  "useScan (doClose e d) = useScan d"
  "scan_thread (doClose e d) = scan_thread d"
  "threads_spawned (doClose e d) = threads_spawned d"
  "connect_fail (doClose e d) = connect_fail d"
  "calibrated (doClose e d) = calibrated d"
  "lost_scan_thread_count (doClose e d) = lost_scan_thread_count d"
  "corrupted_scan_count (doClose e d) = corrupted_scan_count d"
  "config (doClose e d) = config d"
  "detached (doClose e d) = detached d"
  "laser (doClose e d) = laser d @ [(Laser_close, returned (close_r e))]"
  by (simp_all add: doClose_def called_def)

lemma reset_scan_thread_fields [simp]:
  "state (reset_scan_thread p d) = state d"
  "useScan (reset_scan_thread p d) = useScan d"
  "scan_thread (reset_scan_thread p d) = p"
  "threads_spawned (reset_scan_thread p d) = threads_spawned d"
  "device_status (reset_scan_thread p d) = device_status d"
  "device_id (reset_scan_thread p d) = device_id d"
  "connect_fail (reset_scan_thread p d) = connect_fail d"
  "scan (reset_scan_thread p d) = scan d"
  "laser (reset_scan_thread p d) = laser d"
  "calibrated (reset_scan_thread p d) = calibrated d"
  "lost_scan_thread_count (reset_scan_thread p d) = lost_scan_thread_count d"
  "corrupted_scan_count (reset_scan_thread p d) = corrupted_scan_count d"
  "config (reset_scan_thread p d) = config d"
  by (simp_all add: reset_scan_thread_def)

lemma reset_scan_thread_idle:
  "scan_thread d = None \<or> scan_thread d = Some Finished \<Longrightarrow>
   reset_scan_thread p d = d\<lparr>scan_thread := p\<rparr>"
  by (auto simp add: reset_scan_thread_def)

lemma reset_scan_thread_live:
  "scan_thread d = Some pc \<Longrightarrow> pc \<noteq> Finished \<Longrightarrow>
   reset_scan_thread p d = d\<lparr>detached := detached d @ [pc], scan_thread := p\<rparr>"
  by (cases pc) (simp_all add: reset_scan_thread_def)

lemma doOpen_try_failure: "fst (doOpen_try e d) = open_failure e d"
  by (cases "open_r e"; cases "getID_r e"; cases "getStatus_r e"; cases "laserOn_r e";
      cases "calcLatency_r e")
     (simp_all add: doOpen_try_def open_failure_def getID_def call_def called_def done_try_def
        Let_def)

lemma doOpen_try_frame:
  "useScan (snd (doOpen_try e d)) = useScan d"
  "scan_thread (snd (doOpen_try e d)) = scan_thread d"
  "threads_spawned (snd (doOpen_try e d)) = threads_spawned d"
  "connect_fail (snd (doOpen_try e d)) = connect_fail d"
  "lost_scan_thread_count (snd (doOpen_try e d)) = lost_scan_thread_count d"
  "corrupted_scan_count (snd (doOpen_try e d)) = corrupted_scan_count d"
  "config (snd (doOpen_try e d)) = config d"
  "detached (snd (doOpen_try e d)) = detached d"
  by (cases "open_r e"; cases "getID_r e"; cases "getStatus_r e"; cases "laserOn_r e";
      cases "calcLatency_r e";
      simp add: doOpen_try_def getID_def call_def called_def done_try_def Let_def)+

lemma doOpen_try_state:
  "open_failure e d = None \<Longrightarrow> state (snd (doOpen_try e d)) = OPENED"
  by (cases "open_r e"; cases "getID_r e"; cases "getStatus_r e"; cases "laserOn_r e";
      cases "calcLatency_r e")
     (auto simp add: doOpen_try_def open_failure_def getID_def call_def called_def done_try_def
        Let_def split: if_splits)

lemma doOpen_cases:
  "doOpen e d =
     (case open_failure e d of
        None \<Rightarrow> snd (doOpen_try e d)
      | Some x \<Rightarrow> doClose e ((snd (doOpen_try e d))\<lparr>connect_fail := what x\<rparr>))"
  using doOpen_try_failure [of e d]
  by (cases "doOpen_try e d") (simp add: doOpen_def split: option.splits)

lemma doOpen_state: "state (doOpen e d) = (if open_succeeds e d then OPENED else CLOSED)"
  by (simp add: doOpen_cases open_succeeds_def doOpen_try_state doClose_fields
      split: option.splits)

lemma doOpen_frame:
  "useScan (doOpen e d) = useScan d"
  "scan_thread (doOpen e d) = scan_thread d"
  "threads_spawned (doOpen e d) = threads_spawned d"
  "lost_scan_thread_count (doOpen e d) = lost_scan_thread_count d"
  "corrupted_scan_count (doOpen e d) = corrupted_scan_count d"
  "config (doOpen e d) = config d"
  "detached (doOpen e d) = detached d"
  by (simp_all add: doOpen_cases doOpen_try_frame doClose_fields split: option.splits)

lemma doOpen_connect_fail:
  "connect_fail (doOpen e d) =
     (case open_failure e d of None \<Rightarrow> connect_fail d | Some x \<Rightarrow> what x)"
  by (simp add: doOpen_cases doOpen_try_frame doClose_fields split: option.splits)

lemma doStart_try_failure: "fst (doStart_try e d) = start_failure e"
  by (cases "laserOn_r e"; cases "requestScans_r e")
     (simp_all add: doStart_try_def start_failure_def call_def called_def done_try_def Let_def)

lemma doStart_try_frame:
  "useScan (snd (doStart_try e d)) = useScan d"
  "connect_fail (snd (doStart_try e d)) = connect_fail d"
  "calibrated (snd (doStart_try e d)) = calibrated d"
  "lost_scan_thread_count (snd (doStart_try e d)) = lost_scan_thread_count d"
  "config (snd (doStart_try e d)) = config d"
  by (cases "laserOn_r e"; cases "requestScans_r e";
      simp add: doStart_try_def call_def called_def done_try_def Let_def)+

lemma doStart_cases:
  "doStart e d =
     (case start_failure e of
        None \<Rightarrow> snd (doStart_try e d)
      | Some x \<Rightarrow> doClose e ((snd (doStart_try e d))\<lparr>connect_fail := what x\<rparr>))"
  using doStart_try_failure [of e d]
  by (cases "doStart_try e d") (simp add: doStart_def split: option.splits)

lemma doStart_rejected_try:
  assumes "start_rejected e"
  shows "doStart e d =
     (called (Laser_requestScans (\<not> model_04LX (config d) \<and> intensity (config d))
                (min_ang (config d)) (max_ang (config d)) (cluster (config d)) (skip (config d)))
        (requestScans_r e) (called Laser_laserOn (laserOn_r e) d))
       \<lparr>corrupted_scan_count := corrupted_scan_count d + 1\<rparr>"
  using assms
  by (cases "laserOn_r e"; cases "requestScans_r e")
     (simp_all add: doStart_def doStart_try_def start_rejected_def call_def called_def
        done_try_def Let_def)

lemma doStart_state:
  "state (doStart e d) =
     (if start_succeeds e then RUNNING else if start_rejected e then state d else CLOSED)"
  by (cases "laserOn_r e"; cases "requestScans_r e")
     (simp_all add: doStart_def doStart_try_def start_succeeds_def start_rejected_def
        doClose_def call_def called_def done_try_def Let_def)

lemma doStart_frame:
  "useScan (doStart e d) = useScan d"
  "calibrated (doStart e d) = calibrated d"
  "lost_scan_thread_count (doStart e d) = lost_scan_thread_count d"
  "config (doStart e d) = config d"
  by (simp_all add: doStart_cases doStart_try_frame doClose_fields split: option.splits)

lemma doStart_connect_fail:
  "connect_fail (doStart e d) =
     (case start_failure e of None \<Rightarrow> connect_fail d | Some x \<Rightarrow> what x)"
  by (simp add: doStart_cases doStart_try_frame doClose_fields split: option.splits)

subsection \<open>The steps of a thread\<close>

lemma scanThread_exit_Inr:
  assumes "scanThread_exit e d = Inr (pc', d')"
  shows "pc' = Finished"
    and "d' = d\<lparr>laser := laser d @ [(Laser_stopScanning, True)], state := OPENED\<rparr>"
  using assms
  by (cases "stopScanning_r e"; simp add: scanThread_exit_def called_def Let_def)+

lemma scanThread_exit_returns:
  "returned (stopScanning_r e) \<Longrightarrow>
   scanThread_exit e d =
     Inr (Finished, d\<lparr>laser := laser d @ [(Laser_stopScanning, True)], state := OPENED\<rparr>)"
  by (cases "stopScanning_r e") (simp_all add: scanThread_exit_def called_def Let_def)

lemma scanThread_exit_throws:
  "stopScanning_r e = Throws x \<Longrightarrow> scanThread_exit e d = Inl (Uncaught x)"
  by (simp add: scanThread_exit_def Let_def)

lemma scanThread_body_delivers:
  "delivers e F \<Longrightarrow>
   scanThread_body e d =
     Inr (AtLoopHead, d\<lparr>laser := laser d @ [(Laser_serviceScan, True)], scan := F,
                        useScan := useScan d @ [F]\<rparr>)"
  by (simp add: scanThread_body_def delivers_def called_def Let_def)

lemma scanThread_body_transient:
  "transient_fault e \<Longrightarrow>
   scanThread_body e d = Inr (AtLoopHead, d\<lparr>laser := laser d @ [(Laser_serviceScan, False)]\<rparr>)"
  by (cases "serviceScan_r e")
     (auto simp add: scanThread_body_def transient_fault_def called_def Let_def
        split: hokuyo_exception.splits)

lemma scanThread_body_fatal:
  "fatal_fault e \<Longrightarrow>
   scanThread_body e d =
     Inr (Finished,
          d\<lparr>laser := laser d @ [(Laser_serviceScan, False), (Laser_close, returned (close_r e))],
            state := CLOSED\<rparr>)"
  by (cases "serviceScan_r e")
     (auto simp add: scanThread_body_def fatal_fault_def doClose_def called_def Let_def
        split: hokuyo_exception.splits)

lemma scanThread_body_status:
  "serviceScan_r e = Returns (status, sc) \<Longrightarrow> status \<noteq> 0 \<Longrightarrow>
   scanThread_body e d =
     scanThread_exit e (d\<lparr>laser := laser d @ [(Laser_serviceScan, True)], scan := sc\<rparr>)"
  by (simp add: scanThread_body_def called_def Let_def)

text \<open>The four answers to a frame request are all there are.\<close>

lemma serviceScan_cases:
  obtains (delivers) F where "delivers e F"
  | (status) status sc where "serviceScan_r e = Returns (status, sc)" "status \<noteq> 0"
  | (transient) "transient_fault e"
  | (fatal) "fatal_fault e"
proof (cases "serviceScan_r e")
  case (Returns p)
  obtain status sc where p: "p = (status, sc)"
    by (cases p)
  show ?thesis
  proof (cases "status = 0")
    case True
    with Returns p have "delivers e sc"
      by (simp add: delivers_def)
    then show ?thesis
      by (rule delivers)
  next
    case False
    with Returns p show ?thesis
      by (simp add: status)
  qed
next
  case (Throws x)
  show ?thesis
  proof (cases x)
    case (Exception m)
    with Throws have "fatal_fault e"
      by (simp add: fatal_fault_def)
    then show ?thesis
      by (rule fatal)
  next
    case (CorruptedDataException m)
    with Throws have "transient_fault e"
      by (simp add: transient_fault_def)
    then show ?thesis
      by (rule transient)
  qed
qed

lemma fault_kinds:
  "fatal_fault e \<Longrightarrow> \<not> transient_fault e"
  "fatal_fault e \<Longrightarrow> \<not> delivers e F"
  "transient_fault e \<Longrightarrow> \<not> delivers e F"
  "fatal_fault e \<Longrightarrow> serviceScan_r e \<noteq> Returns p"
  "transient_fault e \<Longrightarrow> serviceScan_r e \<noteq> Returns p"
  by (auto simp add: fatal_fault_def transient_fault_def delivers_def
      split: outcome.splits hokuyo_exception.splits)

lemma scanThread_at_simps:
  "scanThread_at e Finished d = Inr (Finished, d)"
  "scanThread_at e InServiceScan d = scanThread_body e d"
  "scanThread_at e AtLoopHead d =
     (if state d = RUNNING then Inr (InServiceScan, d) else scanThread_exit e d)"
  by (simp_all add: scanThread_at_def)

text \<open>
  What a step of a thread can do once the state is no longer \<open>RUNNING\<close>: nothing (it has
  returned), leave the loop (\<open>stopScanning\<close>, \<open>OPENED\<close>), finish its request and come
  back to the test of the loop, or close the device on a fatal fault.
\<close>

lemma scanThread_at_stopped:
  assumes "state d \<noteq> RUNNING" and "scanThread_at e pc d = Inr (pc', d')"
  obtains (idle) "pc = Finished" "pc' = Finished" "d' = d"
  | (left) "pc = AtLoopHead" "pc' = Finished"
      "d' = d\<lparr>laser := laser d @ [(Laser_stopScanning, True)], state := OPENED\<rparr>"
  | (break) sc where "pc = InServiceScan" "pc' = Finished"
      "d' = d\<lparr>laser := laser d @ [(Laser_serviceScan, True), (Laser_stopScanning, True)],
              scan := sc, state := OPENED\<rparr>"
  | (delivered) F where "pc = InServiceScan" "pc' = AtLoopHead"
      "d' = d\<lparr>laser := laser d @ [(Laser_serviceScan, True)], scan := F,
              useScan := useScan d @ [F]\<rparr>"
  | (skipped) "pc = InServiceScan" "pc' = AtLoopHead"
      "d' = d\<lparr>laser := laser d @ [(Laser_serviceScan, False)]\<rparr>"
  | (closed) "pc = InServiceScan" "pc' = Finished"
      "d' = d\<lparr>laser := laser d @ [(Laser_serviceScan, False), (Laser_close, returned (close_r e))],
              state := CLOSED\<rparr>"
proof (cases pc)
  case AtLoopHead
  with assms have "scanThread_exit e d = Inr (pc', d')"
    by (simp add: scanThread_at_simps)
  from scanThread_exit_Inr [OF this] AtLoopHead show ?thesis
    by (rule_tac left)
next
  case InServiceScan
  with assms have body: "scanThread_body e d = Inr (pc', d')"
    by (simp add: scanThread_at_simps)
  show ?thesis
  proof (cases e rule: serviceScan_cases)
    case (delivers F)
    with body InServiceScan show ?thesis
      by (intro delivered [of F]) (simp_all add: scanThread_body_delivers)
  next
    case (status st sc)
    with body have "scanThread_exit e (d\<lparr>laser := laser d @ [(Laser_serviceScan, True)],
        scan := sc\<rparr>) = Inr (pc', d')"
      by (simp add: scanThread_body_status)
    from scanThread_exit_Inr [OF this] InServiceScan show ?thesis
      by (intro break [of sc]) simp_all
  next
    case transient
    with body InServiceScan show ?thesis
      by (intro skipped) (simp_all add: scanThread_body_transient)
  next
    case fatal
    with body InServiceScan show ?thesis
      by (intro closed) (simp_all add: scanThread_body_fatal)
  qed
next
  case Finished
  with assms show ?thesis
    by (intro idle) (simp_all add: scanThread_at_simps)
qed

subsection \<open>The steps of the thread pointed to\<close>

lemma scanThread_step_at:
  "scan_thread d = Some pc \<Longrightarrow>
   scanThread_step e d =
     (case scanThread_at e pc d of
        Inl a \<Rightarrow> Inl a
      | Inr (pc', d') \<Rightarrow> Inr (d'\<lparr>scan_thread := Some pc'\<rparr>))"
  by (simp add: scanThread_step_def)

lemma scanThread_step_head:
  "scan_thread d = Some AtLoopHead \<Longrightarrow> state d = RUNNING \<Longrightarrow>
   scanThread_step e d = Inr (d\<lparr>scan_thread := Some InServiceScan\<rparr>)"
  by (simp add: scanThread_step_at scanThread_at_simps)

lemma scanThread_step_leave:
  "scan_thread d = Some AtLoopHead \<Longrightarrow> state d \<noteq> RUNNING \<Longrightarrow>
   returned (stopScanning_r e) \<Longrightarrow>
   scanThread_step e d =
     Inr (d\<lparr>laser := laser d @ [(Laser_stopScanning, True)], state := OPENED,
             scan_thread := Some Finished\<rparr>)"
  by (simp add: scanThread_step_at scanThread_at_simps scanThread_exit_returns)

lemma scanThread_step_delivers:
  "scan_thread d = Some InServiceScan \<Longrightarrow> delivers e F \<Longrightarrow>
   scanThread_step e d =
     Inr (d\<lparr>laser := laser d @ [(Laser_serviceScan, True)], scan := F,
             useScan := useScan d @ [F], scan_thread := Some AtLoopHead\<rparr>)"
  by (simp add: scanThread_step_at scanThread_at_simps scanThread_body_delivers)

lemma scanThread_step_transient:
  "scan_thread d = Some InServiceScan \<Longrightarrow> transient_fault e \<Longrightarrow>
   scanThread_step e d =
     Inr (d\<lparr>laser := laser d @ [(Laser_serviceScan, False)], scan_thread := Some AtLoopHead\<rparr>)"
  by (simp add: scanThread_step_at scanThread_at_simps scanThread_body_transient)

lemma scanThread_step_fatal:
  "scan_thread d = Some InServiceScan \<Longrightarrow> fatal_fault e \<Longrightarrow>
   scanThread_step e d =
     Inr (d\<lparr>laser := laser d @ [(Laser_serviceScan, False), (Laser_close, returned (close_r e))],
             state := CLOSED, scan_thread := Some Finished\<rparr>)"
  by (simp add: scanThread_step_at scanThread_at_simps scanThread_body_fatal)

lemma scanThread_step_idle:
  "scan_thread d = None \<or> scan_thread d = Some Finished \<Longrightarrow> scanThread_step e d = Inr d"
  by (auto simp add: scanThread_step_def scanThread_at_simps)


subsection \<open>The steps of a detached thread\<close>

lemma detached_step_none: "none_abandoned d \<Longrightarrow> detached_step i e d = Inr d"
proof (cases "i < length (detached d)")
  case True
  assume "none_abandoned d"
  with True have "detached d ! i = Finished"
    by (simp add: none_abandoned_def list_all_length)
  with True show ?thesis
    by (simp add: detached_step_def scanThread_at_simps list_update_same_conv)
next
  case False
  then show ?thesis
    by (simp add: detached_step_def)
qed

lemma detached_step_stopped:
  assumes "state d \<noteq> RUNNING" and "detached_step i e d = Inr d'"
  obtains (idle) "d' = d"
  | (step) pc pc' d1 where "i < length (detached d)" "pc = detached d ! i"
      "scanThread_at e pc d = Inr (pc', d1)" "d' = d1\<lparr>detached := (detached d)[i := pc']\<rparr>"
proof (cases "i < length (detached d)")
  case True
  with assms(2) obtain pc' d1 where at: "scanThread_at e (detached d ! i) d = Inr (pc', d1)"
    and d': "d' = d1\<lparr>detached := (detached d1)[i := pc']\<rparr>"
    by (auto simp add: detached_step_def split: sum.splits)
  from assms(1) at have "detached d1 = detached d"
    by (cases rule: scanThread_at_stopped) simp_all
  with True at d' show ?thesis
    by (intro step [of "detached d ! i" pc' d1]) simp_all
next
  case False
  with assms(2) show ?thesis
    by (intro idle) (simp add: detached_step_def)
qed

subsection \<open>Runs\<close>

lemma exec_append:
  "exec (xs @ ys) d = (case exec xs d of Inl a \<Rightarrow> Inl a | Inr d' \<Rightarrow> exec ys d')"
  by (induction xs arbitrary: d) (simp_all split: sum.splits)

lemma doStart_succeeds_try:
  assumes "start_succeeds e"
  shows "doStart e d =
     reset_scan_thread (Some AtLoopHead)
       ((called (Laser_requestScans (\<not> model_04LX (config d) \<and> intensity (config d))
                   (min_ang (config d)) (max_ang (config d)) (cluster (config d))
                   (skip (config d)))
           (requestScans_r e) (called Laser_laserOn (laserOn_r e) d))
          \<lparr>state := RUNNING, threads_spawned := Suc (threads_spawned d)\<rparr>)"
  using assms
  by (cases "laserOn_r e")
     (simp_all add: doStart_def doStart_try_def start_succeeds_def call_def called_def
        done_try_def Let_def)

lemma new_calls_append [simp]:
  "laser d' = laser d @ cs \<Longrightarrow> new_calls d d' = cs"
  by (simp add: new_calls_def)

lemma ex_running_reached:
  "exec [Open ex_device, Start ex_device, Thread ex_device] (HokuyoDriver ex_config 0)
     = Inr ex_running"
proof -
  have s: "start_succeeds ex_device"
    by (simp add: start_succeeds_def ex_device_def)
  have i: "scan_thread (called c r (doOpen ex_device (HokuyoDriver ex_config 0))) = None" for c r
    by (simp add: called_def doOpen_frame HokuyoDriver_def)
  show ?thesis
    by (simp add: ex_running_def scanThread_step_head doStart_succeeds_try [OF s]
        reset_scan_thread_idle i)
qed

lemma ex_running_fields:
  "state ex_running = RUNNING"
  "scan_thread ex_running = Some InServiceScan"
  "useScan ex_running = []"
  "lost_scan_thread_count ex_running = 0"
  "corrupted_scan_count ex_running = 0"
  "detached ex_running = []"
  "map fst (laser ex_running) =
     [Laser_open ''/dev/ttyACM0'' False, Laser_getID, Laser_getStatus, Laser_laserOn,
      Laser_calcLatency True (- 1) 1 1 1, Laser_laserOn, Laser_requestScans True (- 1) 1 1 1]"
proof -
  have s: "start_succeeds ex_device"
    by (simp add: start_succeeds_def ex_device_def)
  have i: "scan_thread (called c r (doOpen ex_device (HokuyoDriver ex_config 0))) = None" for c r
    by (simp add: called_def doOpen_frame HokuyoDriver_def)
  show "state ex_running = RUNNING" "scan_thread ex_running = Some InServiceScan"
    "useScan ex_running = []" "lost_scan_thread_count ex_running = 0"
    "corrupted_scan_count ex_running = 0"
    by (simp_all add: ex_running_def doStart_succeeds_try [OF s] called_def doOpen_frame
        HokuyoDriver_def)
  show "detached ex_running = []"
    by (simp add: ex_running_def doStart_succeeds_try [OF s] reset_scan_thread_def called_def
        doOpen_frame HokuyoDriver_def)
  show "map fst (laser ex_running) =
     [Laser_open ''/dev/ttyACM0'' False, Laser_getID, Laser_getStatus, Laser_laserOn,
      Laser_calcLatency True (- 1) 1 1 1, Laser_laserOn, Laser_requestScans True (- 1) 1 1 1]"
    by (simp add: ex_running_def doStart_succeeds_try [OF s])
       (simp add: doOpen_def doOpen_try_def getID_def call_def called_def done_try_def
          Let_def HokuyoDriver_def ex_config_def ex_device_def)
qed

subsection \<open>Waiting for a thread that has returned\<close>

lemma timed_join_finished:
  "scan_thread d = Some Finished \<Longrightarrow> timed_join ms sched d = Inr (True, d)"
  by (cases sched) auto

lemma doStop_not_running: "state d \<noteq> RUNNING \<Longrightarrow> doStop sched d = Inr d"
  by (simp add: doStop_def)

lemma doStop_idle:
  assumes "scan_thread d = None \<or> scan_thread d = Some Finished"
  shows "doStop sched d =
     Inr (if state d \<noteq> RUNNING then d else d\<lparr>state := OPENED, scan_thread := None\<rparr>)"
  using assms by (auto simp add: doStop_def timed_join_finished reset_scan_thread_idle)

subsection \<open>Frames delivered in a row\<close>

lemma iteration_delivers:
  assumes "state d = RUNNING" and "scan_thread d = Some AtLoopHead" and "delivers s F"
  shows "exec (iteration (h, s)) d =
     Inr (d\<lparr>laser := laser d @ [(Laser_serviceScan, True)], scan := F,
             useScan := useScan d @ [F], scan_thread := Some AtLoopHead\<rparr>)"
  using assms
  by (simp add: scanThread_step_head scanThread_step_delivers)

lemma iteration_fatal:
  assumes "state d = RUNNING" and "scan_thread d = Some AtLoopHead" and "fatal_fault s"
  shows "exec (iteration (h, s)) d =
     Inr (d\<lparr>laser := laser d @ [(Laser_serviceScan, False), (Laser_close, returned (close_r s))],
             state := CLOSED, scan_thread := Some Finished\<rparr>)"
  using assms
  by (simp add: scanThread_step_head scanThread_step_fatal)

lemma iterations_deliver:
  assumes "list_all2 (\<lambda>it F. delivers (snd it) F) its fs"
    and "state d = RUNNING" and "scan_thread d = Some AtLoopHead"
  shows "\<exists>d'. exec (concat (map iteration its)) d = Inr d' \<and> useScan d' = useScan d @ fs
    \<and> state d' = RUNNING \<and> scan_thread d' = Some AtLoopHead \<and> detached d' = detached d"
  using assms
proof (induction its fs arbitrary: d rule: list_all2_induct)
  case Nil
  then show ?case
    by simp
next
  case (Cons it its F fs)
  obtain h s where it: "it = (h, s)"
    by (cases it)
  let ?d1 = "d\<lparr>laser := laser d @ [(Laser_serviceScan, True)], scan := F,
             useScan := useScan d @ [F], scan_thread := Some AtLoopHead\<rparr>"
  from Cons.hyps(1) it have "delivers s F"
    by simp
  with Cons.prems have one: "exec (iteration it) d = Inr ?d1"
    unfolding it by (rule iteration_delivers)
  from Cons.prems have "state ?d1 = RUNNING" "scan_thread ?d1 = Some AtLoopHead"
    by simp_all
  from Cons.IH [OF this] obtain d' where
    rest: "exec (concat (map iteration its)) ?d1 = Inr d'"
    and d': "useScan d' = useScan ?d1 @ fs" "state d' = RUNNING"
      "scan_thread d' = Some AtLoopHead" "detached d' = detached ?d1"
    by blast
  have "exec (concat (map iteration (it # its))) d = Inr d'"
    using one rest by (simp add: exec_append del: exec.simps iteration.simps)
  with d' show ?case
    by simp
qed

subsection \<open>Without a start no frame is delivered\<close>

lemma step_quiet:
  assumes "\<not> is_Start ev" and "scan_thread d = None \<or> scan_thread d = Some Finished"
    and "none_abandoned d" and "step ev d = Inr d'"
  shows "useScan d' = useScan d \<and> (scan_thread d' = None \<or> scan_thread d' = Some Finished)
    \<and> none_abandoned d'"
proof (cases ev)
  case (Open e)
  with assms show ?thesis
    by (auto simp add: doOpen_frame none_abandoned_def)
next
  case (Close e)
  with assms show ?thesis
    by (auto simp add: doClose_fields none_abandoned_def)
next
  case (Start e)
  with assms show ?thesis
    by simp
next
  case (Stop sched)
  with assms show ?thesis
    by (auto simp add: doStop_idle none_abandoned_def split: if_splits)
next
  case (Thread e)
  with assms show ?thesis
    by (auto simp add: scanThread_step_idle)
next
  case (Abandoned i e)
  with assms show ?thesis
    by (auto simp add: detached_step_none)
qed

lemma exec_quiet:
  assumes "list_all (\<lambda>ev. \<not> is_Start ev) evs"
    and "scan_thread d = None \<or> scan_thread d = Some Finished"
    and "none_abandoned d"
    and "exec evs d = Inr d'"
  shows "useScan d' = useScan d"
  using assms
proof (induction evs arbitrary: d)
  case Nil
  then show ?case
    by simp
next
  case (Cons ev evs)
  from Cons.prems(4) obtain d1 where one: "step ev d = Inr d1" and rest: "exec evs d1 = Inr d'"
    by (auto split: sum.splits)
  from Cons.prems(1) have "\<not> is_Start ev" "list_all (\<lambda>ev. \<not> is_Start ev) evs"
    by simp_all
  with step_quiet [OF _ Cons.prems(2,3) one] Cons.IH [OF _ _ _ rest] show ?case
    by simp
qed

subsection \<open>What the acquisition threads leave alone\<close>

lemma scanThread_at_frame:
  assumes "scanThread_at e pc d = Inr (pc', d')"
  shows "connect_fail d' = connect_fail d \<and> calibrated d' = calibrated d
    \<and> lost_scan_thread_count d' = lost_scan_thread_count d
    \<and> corrupted_scan_count d' = corrupted_scan_count d
    \<and> threads_spawned d' = threads_spawned d \<and> config d' = config d
    \<and> calibrations (laser d') = calibrations (laser d)
    \<and> scan_thread d' = scan_thread d \<and> detached d' = detached d"
proof (cases pc)
  case AtLoopHead
  show ?thesis
  proof (cases "state d = RUNNING")
    case True
    with assms AtLoopHead show ?thesis
      by (auto simp add: scanThread_at_simps)
  next
    case False
    with assms AtLoopHead have "scanThread_exit e d = Inr (pc', d')"
      by (simp add: scanThread_at_simps)
    from scanThread_exit_Inr(2) [OF this] show ?thesis
      by (simp add: calibrations_def)
  qed
next
  case InServiceScan
  with assms have body: "scanThread_body e d = Inr (pc', d')"
    by (simp add: scanThread_at_simps)
  show ?thesis
  proof (cases e rule: serviceScan_cases)
    case (delivers F)
    with body show ?thesis
      by (auto simp add: scanThread_body_delivers calibrations_def)
  next
    case (status st sc)
    with body have "scanThread_exit e (d\<lparr>laser := laser d @ [(Laser_serviceScan, True)],
        scan := sc\<rparr>) = Inr (pc', d')"
      by (simp add: scanThread_body_status)
    from scanThread_exit_Inr(2) [OF this] show ?thesis
      by (simp add: calibrations_def)
  next
    case transient
    with body show ?thesis
      by (auto simp add: scanThread_body_transient calibrations_def)
  next
    case fatal
    with body show ?thesis
      by (auto simp add: scanThread_body_fatal calibrations_def)
  qed
next
  case Finished
  with assms show ?thesis
    by (auto simp add: scanThread_at_simps)
qed

lemma scanThread_step_frame:
  assumes "scanThread_step e d = Inr d'"
  shows "connect_fail d' = connect_fail d \<and> calibrated d' = calibrated d
    \<and> lost_scan_thread_count d' = lost_scan_thread_count d
    \<and> corrupted_scan_count d' = corrupted_scan_count d
    \<and> threads_spawned d' = threads_spawned d \<and> config d' = config d
    \<and> calibrations (laser d') = calibrations (laser d)"
proof (cases "scan_thread d")
  case None
  with assms show ?thesis
    by (simp add: scanThread_step_idle)
next
  case (Some pc)
  with assms obtain pc' d1 where at: "scanThread_at e pc d = Inr (pc', d1)"
    and d': "d' = d1\<lparr>scan_thread := Some pc'\<rparr>"
    by (auto simp add: scanThread_step_at split: sum.splits)
  from scanThread_at_frame [OF at] d' show ?thesis
    by simp
qed

lemma detached_step_frame:
  assumes "detached_step i e d = Inr d'"
  shows "connect_fail d' = connect_fail d \<and> calibrated d' = calibrated d
    \<and> lost_scan_thread_count d' = lost_scan_thread_count d
    \<and> corrupted_scan_count d' = corrupted_scan_count d
    \<and> threads_spawned d' = threads_spawned d \<and> config d' = config d
    \<and> calibrations (laser d') = calibrations (laser d)"
proof (cases "i < length (detached d)")
  case True
  with assms obtain pc' d1 where at: "scanThread_at e (detached d ! i) d = Inr (pc', d1)"
    and d': "d' = d1\<lparr>detached := (detached d1)[i := pc']\<rparr>"
    by (auto simp add: detached_step_def split: sum.splits)
  from scanThread_at_frame [OF at] d' show ?thesis
    by simp
next
  case False
  with assms show ?thesis
    by (simp add: detached_step_def)
qed

lemma do_thread_step_frame:
  assumes "do_thread_step r d = Inr d'"
  shows "connect_fail d' = connect_fail d \<and> calibrated d' = calibrated d
    \<and> lost_scan_thread_count d' = lost_scan_thread_count d
    \<and> corrupted_scan_count d' = corrupted_scan_count d
    \<and> threads_spawned d' = threads_spawned d \<and> config d' = config d
    \<and> calibrations (laser d') = calibrations (laser d)"
  using assms scanThread_step_frame [of _ d d'] detached_step_frame [of _ _ d d']
  by (cases r) simp_all

lemma timed_join_frame:
  assumes "timed_join ms sched d = Inr (joined, d')"
  shows "connect_fail d' = connect_fail d \<and> calibrated d' = calibrated d
    \<and> lost_scan_thread_count d' = lost_scan_thread_count d
    \<and> corrupted_scan_count d' = corrupted_scan_count d
    \<and> threads_spawned d' = threads_spawned d \<and> config d' = config d
    \<and> calibrations (laser d') = calibrations (laser d)"
  using assms
proof (induction sched arbitrary: ms d)
  case Nil
  then show ?case
    by simp
next
  case (Cons p sched)
  obtain t r where p: "p = (t, r)"
    by (cases p)
  show ?case
  proof (cases "scan_thread d = Some Finished \<or> ms < t")
    case True
    with Cons.prems p show ?thesis
      by (auto split: if_splits)
  next
    case False
    with Cons.prems p obtain d1 where one: "do_thread_step r d = Inr d1"
      and rest: "timed_join (ms - t) sched d1 = Inr (joined, d')"
      by (auto split: sum.splits)
    from do_thread_step_frame [OF one] Cons.IH [OF rest] show ?thesis
      by simp
  qed
qed

text \<open>Stop in \<open>Running\<close> with a thread to wait for, by the result of the wait.\<close>

lemma doStop_running:
  assumes "state d = RUNNING" and "scan_thread d \<noteq> None"
  shows "doStop sched d =
     (case timed_join 2000 sched (d\<lparr>state := OPENED\<rparr>) of
        Inl a \<Rightarrow> Inl a
      | Inr (joined, d2) \<Rightarrow>
          Inr (if joined then reset_scan_thread None d2
               else reset_scan_thread None
                      (d2\<lparr>lost_scan_thread_count := lost_scan_thread_count d2 + 1\<rparr>)))"
  using assms by (simp add: doStop_def Let_def split: sum.splits prod.splits)

lemma doStop_no_thread:
  assumes "state d = RUNNING" and "scan_thread d = None"
  shows "doStop sched d = Inr (d\<lparr>state := OPENED, scan_thread := None\<rparr>)"
  using assms by (simp add: doStop_def Let_def reset_scan_thread_idle)

lemma doStop_cases:
  assumes "doStop sched d = Inr d'"
  obtains (noop) "state d \<noteq> RUNNING" "d' = d"
  | (no_thread) "state d = RUNNING" "scan_thread d = None"
      "d' = d\<lparr>state := OPENED, scan_thread := None\<rparr>"
  | (joined) d2 where "state d = RUNNING" "scan_thread d \<noteq> None"
      "timed_join 2000 sched (d\<lparr>state := OPENED\<rparr>) = Inr (True, d2)"
      "d' = reset_scan_thread None d2"
  | (late) d2 where "state d = RUNNING" "scan_thread d \<noteq> None"
      "timed_join 2000 sched (d\<lparr>state := OPENED\<rparr>) = Inr (False, d2)"
      "d' = reset_scan_thread None
              (d2\<lparr>lost_scan_thread_count := lost_scan_thread_count d2 + 1\<rparr>)"
proof (cases "state d = RUNNING")
  case False
  with assms show ?thesis
    by (intro noop) (simp_all add: doStop_not_running)
next
  case True
  show ?thesis
  proof (cases "scan_thread d = None")
    case None: True
    with assms \<open>state d = RUNNING\<close> show ?thesis
      by (intro no_thread) (simp_all add: doStop_no_thread)
  next
    case False
    with assms True obtain j d2 where
      j: "timed_join 2000 sched (d\<lparr>state := OPENED\<rparr>) = Inr (j, d2)"
      and d': "d' = (if j then reset_scan_thread None d2
          else reset_scan_thread None
                 (d2\<lparr>lost_scan_thread_count := lost_scan_thread_count d2 + 1\<rparr>))"
      by (auto simp add: doStop_running split: sum.splits)
    show ?thesis
    proof (cases j)
      case True
      with j d' \<open>state d = RUNNING\<close> False show ?thesis
        by (intro joined [of d2]) simp_all
    next
      case False
      with j d' \<open>state d = RUNNING\<close> \<open>scan_thread d \<noteq> None\<close> show ?thesis
        by (intro late [of d2]) simp_all
    qed
  qed
qed

lemma doStop_frame:
  assumes "doStop sched d = Inr d'"
  shows "calibrated d' = calibrated d \<and> calibrations (laser d') = calibrations (laser d)
    \<and> corrupted_scan_count d' = corrupted_scan_count d
    \<and> threads_spawned d' = threads_spawned d \<and> config d' = config d
    \<and> connect_fail d' = connect_fail d"
  using assms
proof (cases rule: doStop_cases)
  case noop
  then show ?thesis
    by simp
next
  case no_thread
  then show ?thesis
    by simp
next
  case (joined d2)
  from timed_join_frame [OF joined(3)] joined(4) show ?thesis
    by simp
next
  case (late d2)
  from timed_join_frame [OF late(3)] late(4) show ?thesis
    by simp
qed

lemma doStop_connect_fail:
  assumes "doStop sched d = Inr d'"
  shows "connect_fail d' = connect_fail d"
  using doStop_frame [OF assms] by simp

subsection \<open>The summary of the diagnostics\<close>

lemma connectionStatus_mapping:
  "connectionStatus n =
     (case state (driver n) of
        CLOSED \<Rightarrow> (2, ''Not connected. '' @ node_connect_fail n)
      | OPENED \<Rightarrow>
          if device_status (driver n) = ''Sensor works well.'' then (0, ''Sensor open.'')
          else (2, ''Sensor not operational'')
      | RUNNING \<Rightarrow>
          if device_status (driver n) = ''Sensor works well.'' then (0, ''Sensor streaming.'')
          else (2, ''Sensor not operational''))"
  by (simp add: connectionStatus_def split: state_t.splits)

lemma node_connect_fail_on_driver:
  "node_connect_fail (on_driver f (HokuyoNode cfg sc)) = []"
  by (simp add: on_driver_def HokuyoNode_def)

subsection \<open>Calibration calls along a run\<close>

lemma calibrations_done_filter: "calibrations_done cs = filter snd (calibrations cs)"
  by (simp add: calibrations_done_def calibrations_def conj_commute)

lemma doOpen_calibration_step: "calibration_step d (doOpen e d)"
  by (cases "open_r e"; cases "getID_r e"; cases "getStatus_r e"; cases "laserOn_r e";
      cases "calcLatency_r e")
     (auto simp add: calibration_step_def calibrations_def doOpen_def doOpen_try_def
        doClose_def getID_def call_def called_def done_try_def Let_def)

lemma doStart_calibration_step: "calibration_step d (doStart e d)"
  by (cases "laserOn_r e"; cases "requestScans_r e")
     (auto simp add: calibration_step_def calibrations_def doStart_def doStart_try_def
        doClose_def call_def called_def done_try_def Let_def)

lemma step_calibration_step:
  assumes "step ev d = Inr d'"
  shows "calibration_step d d'"
proof (cases ev)
  case (Open e)
  with assms show ?thesis
    by (auto simp add: doOpen_calibration_step)
next
  case (Close e)
  with assms show ?thesis
    by (auto simp add: calibration_step_def calibrations_def doClose_fields)
next
  case (Start e)
  with assms show ?thesis
    by (auto simp add: doStart_calibration_step)
next
  case (Stop sched)
  with assms doStop_frame [of sched d d'] show ?thesis
    by (simp add: calibration_step_def)
next
  case (Thread e)
  with assms scanThread_step_frame [of e d d'] show ?thesis
    by (simp add: calibration_step_def)
next
  case (Abandoned i e)
  with assms detached_step_frame [of i e d d'] show ?thesis
    by (simp add: calibration_step_def)
qed

lemma calibration_inv_step:
  assumes "calibration_inv d" and "calibration_step d d'"
  shows "calibration_inv d'"
proof -
  from assms(2) consider
    (same) "calibrations (laser d') = calibrations (laser d)" "calibrated d' = calibrated d"
  | (more) c where "\<not> calibrated d"
      "calibrations (laser d') = calibrations (laser d) @ [(c, calibrated d')]"
    by (auto simp add: calibration_step_def)
  then show ?thesis
  proof cases
    case same
    with assms(1) show ?thesis
      by (simp add: calibration_inv_def calibrated_once_def calibrations_done_filter)
  next
    case more
    from assms(1) more(1) have "filter snd (calibrations (laser d)) = []"
      by (simp add: calibration_inv_def calibrations_done_filter)
    then have "list_all (\<lambda>c. \<not> snd c) (calibrations (laser d))"
      by (simp add: filter_empty_conv list_all_iff)
    with more show ?thesis
      by (simp add: calibration_inv_def calibrated_once_def calibrations_done_filter
          filter_empty_conv list_all_iff)
  qed
qed

lemma calibration_inv_exec:
  assumes "calibration_inv d" and "exec evs d = Inr d'"
  shows "calibration_inv d'"
  using assms
proof (induction evs arbitrary: d)
  case Nil
  then show ?case
    by simp
next
  case (Cons ev evs)
  from Cons.prems(2) obtain d1 where one: "step ev d = Inr d1" and rest: "exec evs d1 = Inr d'"
    by (auto split: sum.splits)
  from calibration_inv_step [OF Cons.prems(1) step_calibration_step [OF one]]
  show ?case
    by (rule Cons.IH [OF _ rest])
qed

lemma calibrated_once_done: "calibrated_once cs \<Longrightarrow> length (calibrations_done cs) \<le> 1"
proof -
  assume c: "calibrated_once cs"
  show ?thesis
  proof (cases "calibrations cs = []")
    case True
    then show ?thesis
      by (simp add: calibrations_done_filter)
  next
    case False
    then have "calibrations cs = butlast (calibrations cs) @ [last (calibrations cs)]"
      by simp
    then have "filter snd (calibrations cs)
        = filter snd (butlast (calibrations cs)) @ filter snd [last (calibrations cs)]"
      by (metis filter_append)
    moreover from c have "filter snd (butlast (calibrations cs)) = []"
      by (simp add: calibrated_once_def filter_empty_conv list_all_iff)
    ultimately show ?thesis
      by (simp add: calibrations_done_filter)
  qed
qed

subsection \<open>Stop and the threads at work while it waits\<close>















subsection \<open>The bound of the wait\<close>




subsection \<open>The examples of stop\<close>





section \<open>The claims\<close>




text \<open>
  C2, as the code has it. A step in which the acquisition thread returns ends in one of two
  ways. When the loop is left by its test (the state is no longer \<open>Running\<close>) or by a
  request that returns a status other than 0, the thread calls \<open>stopScanning\<close> last and,
  that call having returned, sets the state to \<open>Opened\<close> whatever it was. When the loop is
  left by a fatal device fault, the thread calls \<open>doClose\<close> instead: the calls of the step
  are the failed request and \<open>laser_.close\<close>, \<open>stopScanning\<close> is not among them, and the
  state is \<open>Closed\<close>.
\<close>

theorem loop_exit_amended:
  assumes "scan_thread d = Some pc" and "pc \<noteq> Finished"
    and "scanThread_step e d = Inr d'" and "scan_thread d' = Some Finished"
  shows "if pc = InServiceScan \<and> fatal_fault e
         then state d' = CLOSED
            \<and> new_calls d d' = [(Laser_serviceScan, False), (Laser_close, returned (close_r e))]
         else state d' = OPENED
            \<and> new_calls d d' =
                (if pc = InServiceScan then [(Laser_serviceScan, True)] else [])
                @ [(Laser_stopScanning, True)]"
proof -
  from assms(1,3) obtain pc' d1 where at: "scanThread_at e pc d = Inr (pc', d1)"
    and d': "d' = d1\<lparr>scan_thread := Some pc'\<rparr>"
    by (auto simp add: scanThread_step_at split: sum.splits)
  from assms(4) d' have pc': "pc' = Finished"
    by simp
  show ?thesis
  proof (cases pc)
    case AtLoopHead
    with at pc' have "scanThread_exit e d = Inr (pc', d1)"
      by (cases "state d = RUNNING") (simp_all add: scanThread_at_simps)
    from scanThread_exit_Inr(2) [OF this] d' AtLoopHead show ?thesis
      by simp
  next
    case InServiceScan
    with at have body: "scanThread_body e d = Inr (pc', d1)"
      by (simp add: scanThread_at_simps)
    show ?thesis
    proof (cases e rule: serviceScan_cases)
      case (delivers F)
      with body pc' show ?thesis
        by (simp add: scanThread_body_delivers)
    next
      case (status st sc)
      with body have "scanThread_exit e (d\<lparr>laser := laser d @ [(Laser_serviceScan, True)],
          scan := sc\<rparr>) = Inr (pc', d1)"
        by (simp add: scanThread_body_status)
      from scanThread_exit_Inr(2) [OF this] d' status InServiceScan show ?thesis
        by (simp add: fault_kinds fatal_fault_def)
    next
      case transient
      with body pc' show ?thesis
        by (simp add: scanThread_body_transient)
    next
      case fatal
      with body d' InServiceScan show ?thesis
        by (auto simp add: scanThread_body_fatal)
    qed
  next
    case Finished
    with assms show ?thesis
      by simp
  qed
qed

text \<open>
  Both ways in the example: the fatal fault of the request in flight, and the test of the
  loop after the state has been set to \<open>Opened\<close>.
\<close>

theorem loop_exit_amended_witness:
  "scan_thread ex_running = Some InServiceScan
   \<and> \<not> isl (scanThread_step ex_fatal ex_running)
   \<and> state (projr (scanThread_step ex_fatal ex_running)) = CLOSED
   \<and> new_calls ex_running (projr (scanThread_step ex_fatal ex_running))
       = [(Laser_serviceScan, False), (Laser_close, True)]
   \<and> \<not> isl (scanThread_step ex_device (ex_running\<lparr>state := OPENED, scan_thread := Some AtLoopHead\<rparr>))
   \<and> state (projr (scanThread_step ex_device
        (ex_running\<lparr>state := OPENED, scan_thread := Some AtLoopHead\<rparr>))) = OPENED
   \<and> new_calls (ex_running\<lparr>state := OPENED, scan_thread := Some AtLoopHead\<rparr>)
        (projr (scanThread_step ex_device
           (ex_running\<lparr>state := OPENED, scan_thread := Some AtLoopHead\<rparr>)))
       = [(Laser_stopScanning, True)]"
proof -
  let ?d = "ex_running\<lparr>state := OPENED, scan_thread := Some AtLoopHead\<rparr>"
  have f: "fatal_fault ex_fatal"
    by (simp add: fatal_fault_def ex_fatal_def)
  have c: "returned (close_r ex_fatal)" "returned (stopScanning_r ex_device)"
    by (simp_all add: ex_fatal_def ex_device_def)
  have one: "scanThread_step ex_fatal ex_running =
      Inr (ex_running\<lparr>laser := laser ex_running @ [(Laser_serviceScan, False), (Laser_close, True)],
             state := CLOSED, scan_thread := Some Finished\<rparr>)"
    by (simp add: ex_running_fields scanThread_step_fatal [OF _ f] c)
  have two: "scanThread_step ex_device ?d =
      Inr (?d\<lparr>laser := laser ?d @ [(Laser_stopScanning, True)], state := OPENED,
             scan_thread := Some Finished\<rparr>)"
    by (simp add: scanThread_step_leave c)
  have a: "(if InServiceScan = InServiceScan \<and> fatal_fault ex_fatal
         then state (projr (scanThread_step ex_fatal ex_running)) = CLOSED
            \<and> new_calls ex_running (projr (scanThread_step ex_fatal ex_running))
               = [(Laser_serviceScan, False), (Laser_close, returned (close_r ex_fatal))]
         else state (projr (scanThread_step ex_fatal ex_running)) = OPENED
            \<and> new_calls ex_running (projr (scanThread_step ex_fatal ex_running)) =
                (if InServiceScan = InServiceScan then [(Laser_serviceScan, True)] else [])
                @ [(Laser_stopScanning, True)])"
    by (rule loop_exit_amended [of ex_running]) (simp_all add: ex_running_fields one)
  have b: "(if AtLoopHead = InServiceScan \<and> fatal_fault ex_device
         then state (projr (scanThread_step ex_device ?d)) = CLOSED
            \<and> new_calls ?d (projr (scanThread_step ex_device ?d))
               = [(Laser_serviceScan, False), (Laser_close, returned (close_r ex_device))]
         else state (projr (scanThread_step ex_device ?d)) = OPENED
            \<and> new_calls ?d (projr (scanThread_step ex_device ?d)) =
                (if AtLoopHead = InServiceScan then [(Laser_serviceScan, True)] else [])
                @ [(Laser_stopScanning, True)])"
    by (rule loop_exit_amended [of ?d]) (simp_all add: two)
  from a b show ?thesis
    by (simp add: f c ex_running_fields one two)
qed

text \<open>
  C2 as the claim states it fails on a fatal device fault: the example driver is opened and
  started, its thread is inside its first request, and the request throws. The thread has
  returned, the record of calls holds no \<open>stopScanning\<close>, and the state is not
  \<open>Opened\<close>.
\<close>

theorem loop_exit_counterexample:
  "exec [Open ex_device, Start ex_device, Thread ex_device] (HokuyoDriver ex_config 0)
     = Inr ex_running
   \<and> state ex_running = RUNNING
   \<and> scan_thread ex_running = Some InServiceScan
   \<and> \<not> isl (scanThread_step ex_fatal ex_running)
   \<and> scan_thread (projr (scanThread_step ex_fatal ex_running)) = Some Finished
   \<and> map fst (laser (projr (scanThread_step ex_fatal ex_running))) =
       [Laser_open ''/dev/ttyACM0'' False, Laser_getID, Laser_getStatus, Laser_laserOn,
        Laser_calcLatency True (- 1) 1 1 1, Laser_laserOn, Laser_requestScans True (- 1) 1 1 1,
        Laser_serviceScan, Laser_close]
   \<and> filter (\<lambda>c. is_stopScanning (fst c)) (laser (projr (scanThread_step ex_fatal ex_running))) = []
   \<and> state (projr (scanThread_step ex_fatal ex_running)) \<noteq> OPENED"
proof -
  have f: "fatal_fault ex_fatal"
    by (simp add: fatal_fault_def ex_fatal_def)
  have one: "scanThread_step ex_fatal ex_running =
      Inr (ex_running\<lparr>laser := laser ex_running @
               [(Laser_serviceScan, False), (Laser_close, returned (close_r ex_fatal))],
             state := CLOSED, scan_thread := Some Finished\<rparr>)"
    by (simp add: ex_running_fields scanThread_step_fatal [OF _ f])
  have m: "filter (\<lambda>c. is_stopScanning (fst c)) (laser ex_running) = []"
  proof -
    have "map fst (filter (\<lambda>c. is_stopScanning (fst c)) (laser ex_running))
        = filter is_stopScanning (map fst (laser ex_running))"
      by (simp add: filter_map comp_def)
    also have "\<dots> = []"
      by (simp add: ex_running_fields)
    finally show ?thesis
      by simp
  qed
  show ?thesis
    by (simp add: ex_running_reached ex_running_fields one m del: exec.simps)
qed

text \<open>
  C3. On a new driver object, let open and start succeed, let the acquisition loop run
  iterations whose requests deliver the frames \<open>fs\<close> in order (F1..F10 in the claim; any
  number here), and let the next request raise a fatal device fault (an exception other
  than corrupted data). The run does not abort; at its end the callback has received
  exactly \<open>fs\<close> in that order, the state is \<open>Closed\<close> and the thread has returned; and
  whatever calls and thread steps follow, as long as none is a start, the callback has
  still received exactly \<open>fs\<close>.
\<close>

theorem fatal_fault_after_frames:
  assumes "open_succeeds eo (HokuyoDriver cfg sc)" and "start_succeeds es"
    and "list_all2 (\<lambda>it F. delivers (snd it) F) its fs"
    and "fatal_fault (snd it')"
  shows "\<exists>d. exec ([Open eo, Start es] @ concat (map iteration its) @ iteration it')
               (HokuyoDriver cfg sc) = Inr d
    \<and> useScan d = fs \<and> state d = CLOSED \<and> scan_thread d = Some Finished
    \<and> (\<forall>evs d'. list_all (\<lambda>ev. \<not> is_Start ev) evs \<longrightarrow> exec evs d = Inr d'
          \<longrightarrow> useScan d' = fs)"
proof -
  let ?d0 = "HokuyoDriver cfg sc"
  let ?d2 = "doStart es (doOpen eo ?d0)"
  obtain h s where it': "it' = (h, s)"
    by (cases it')
  have started: "state ?d2 = RUNNING" "scan_thread ?d2 = Some AtLoopHead" "useScan ?d2 = []"
    "detached ?d2 = []"
    using assms(2)
    by (simp_all add: doStart_succeeds_try reset_scan_thread_def called_def doOpen_frame
        HokuyoDriver_def)
  from iterations_deliver [OF assms(3) started(1,2)] started(3,4) obtain d3 where
    frames: "exec (concat (map iteration its)) ?d2 = Inr d3"
    and d3: "useScan d3 = fs" "state d3 = RUNNING" "scan_thread d3 = Some AtLoopHead"
      "detached d3 = []"
    by auto
  let ?d4 = "d3\<lparr>laser := laser d3 @ [(Laser_serviceScan, False), (Laser_close, returned (close_r s))],
             state := CLOSED, scan_thread := Some Finished\<rparr>"
  from assms(4) it' have "fatal_fault s"
    by simp
  with d3(2,3) have fault: "exec (iteration it') d3 = Inr ?d4"
    unfolding it' by (intro iteration_fatal)
  have run: "exec ([Open eo, Start es] @ concat (map iteration its) @ iteration it') ?d0
      = Inr ?d4"
    using frames fault by (simp add: exec_append del: iteration.simps)
  have quiet: "\<forall>evs d'. list_all (\<lambda>ev. \<not> is_Start ev) evs \<longrightarrow> exec evs ?d4 = Inr d'
      \<longrightarrow> useScan d' = fs"
  proof (intro allI impI)
    fix evs d'
    assume "list_all (\<lambda>ev. \<not> is_Start ev) evs" and "exec evs ?d4 = Inr d'"
    from exec_quiet [OF this(1) _ _ this(2)] d3 show "useScan d' = fs"
      by (simp add: none_abandoned_def)
  qed
  from run quiet d3 show ?thesis
    by simp
qed

text \<open>
  Scenario A of the spec on the example device: frames 1 to 10, the fault on request 11,
  and then a thread step, a stop, an open and one more thread step.
\<close>

theorem fatal_fault_after_frames_witness:
  "open_succeeds ex_device (HokuyoDriver ex_config 0) \<and> start_succeeds ex_device
   \<and> fatal_fault ex_fatal
   \<and> \<not> isl (exec ([Open ex_device, Start ex_device]
         @ concat (map iteration (map (\<lambda>F. (ex_device, ex_frame F)) [1, 2, 3, 4, 5, 6, 7, 8, 9, 10]))
         @ iteration (ex_device, ex_fatal)) (HokuyoDriver ex_config 0))
   \<and> useScan (projr (exec ([Open ex_device, Start ex_device]
         @ concat (map iteration (map (\<lambda>F. (ex_device, ex_frame F)) [1, 2, 3, 4, 5, 6, 7, 8, 9, 10]))
         @ iteration (ex_device, ex_fatal)) (HokuyoDriver ex_config 0)))
       = [1, 2, 3, 4, 5, 6, 7, 8, 9, 10]
   \<and> state (projr (exec ([Open ex_device, Start ex_device]
         @ concat (map iteration (map (\<lambda>F. (ex_device, ex_frame F)) [1, 2, 3, 4, 5, 6, 7, 8, 9, 10]))
         @ iteration (ex_device, ex_fatal)) (HokuyoDriver ex_config 0))) = CLOSED
   \<and> useScan (projr (exec [Thread ex_device, Stop [], Open ex_device, Thread (ex_frame 11)]
        (projr (exec ([Open ex_device, Start ex_device]
         @ concat (map iteration (map (\<lambda>F. (ex_device, ex_frame F)) [1, 2, 3, 4, 5, 6, 7, 8, 9, 10]))
         @ iteration (ex_device, ex_fatal)) (HokuyoDriver ex_config 0)))))
       = [1, 2, 3, 4, 5, 6, 7, 8, 9, 10]"
proof -
  let ?its = "map (\<lambda>F. (ex_device, ex_frame F)) [1, 2, 3, 4, 5, 6, 7, 8, 9, 10 :: nat]"
  let ?run = "exec ([Open ex_device, Start ex_device] @ concat (map iteration ?its)
      @ iteration (ex_device, ex_fatal)) (HokuyoDriver ex_config 0)"
  let ?later = "[Thread ex_device, Stop [], Open ex_device, Thread (ex_frame 11)]"
  have o: "open_succeeds ex_device (HokuyoDriver ex_config 0)"
    by (simp add: open_succeeds_def open_failure_def ex_device_def)
  have s: "start_succeeds ex_device"
    by (simp add: start_succeeds_def ex_device_def)
  have f: "fatal_fault (snd (ex_device, ex_fatal))"
    by (simp add: fatal_fault_def ex_fatal_def)
  have l: "list_all2 (\<lambda>it F. delivers (snd it) F) ?its [1, 2, 3, 4, 5, 6, 7, 8, 9, 10]"
    by (simp add: delivers_def ex_frame_def)
  from fatal_fault_after_frames [OF o s l f] obtain d where
    run: "?run = Inr d" and d: "useScan d = [1, 2, 3, 4, 5, 6, 7, 8, 9, 10]" "state d = CLOSED"
      "scan_thread d = Some Finished"
    and quiet: "\<And>evs d'. list_all (\<lambda>ev. \<not> is_Start ev) evs \<Longrightarrow> exec evs d = Inr d'
      \<Longrightarrow> useScan d' = [1, 2, 3, 4, 5, 6, 7, 8, 9, 10]"
    by blast
  have "\<not> isl (exec ?later d)"
    using d by (simp add: scanThread_step_idle doStop_idle doOpen_frame)
  then obtain d' where later: "exec ?later d = Inr d'"
    by (cases "exec ?later d") simp_all
  have "useScan d' = [1, 2, 3, 4, 5, 6, 7, 8, 9, 10]"
    by (rule quiet [OF _ later]) simp
  with o s f run d later show ?thesis
    by (simp del: exec.simps iteration.simps)
qed

text \<open>
  C4. When \<open>start\<close> is invoked on any driver object and the device rejects the scan
  request (emission on returns, \<open>requestScans\<close> returns a status other than 0),
  \<open>corrupted_scan_count_\<close> is incremented by exactly 1 (as a 32-bit word, and as a number
  whenever the counter is below the largest \<open>int\<close>), the state is left as it was, so
  \<open>Opened\<close> stays \<open>Opened\<close>, and no thread is created: the count of threads and
  \<open>scan_thread_\<close> are unchanged.
\<close>

theorem doStart_rejected:
  assumes "start_rejected e"
  shows "corrupted_scan_count (doStart e d) = corrupted_scan_count d + 1
    \<and> (sint (corrupted_scan_count d) < 2147483647 \<longrightarrow>
         sint (corrupted_scan_count (doStart e d)) = sint (corrupted_scan_count d) + 1)
    \<and> state (doStart e d) = state d
    \<and> (state d = OPENED \<longrightarrow> state (doStart e d) = OPENED)
    \<and> threads_spawned (doStart e d) = threads_spawned d
    \<and> scan_thread (doStart e d) = scan_thread d"
  by (simp add: doStart_rejected_try [OF assms] called_def sint_increment)

text \<open>
  The device of the example rejects the request of a driver that has just been opened.
\<close>

theorem doStart_rejected_witness:
  "start_rejected ex_rejecting
   \<and> state (doOpen ex_device (HokuyoDriver ex_config 0)) = OPENED
   \<and> state (doStart ex_rejecting (doOpen ex_device (HokuyoDriver ex_config 0))) = OPENED
   \<and> sint (corrupted_scan_count (doStart ex_rejecting (doOpen ex_device (HokuyoDriver ex_config 0)))) = 1
   \<and> threads_spawned (doStart ex_rejecting (doOpen ex_device (HokuyoDriver ex_config 0))) = 0
   \<and> scan_thread (doStart ex_rejecting (doOpen ex_device (HokuyoDriver ex_config 0))) = None"
proof -
  have r: "start_rejected ex_rejecting"
    by (simp add: start_rejected_def ex_rejecting_def ex_device_def)
  have o: "state (doOpen ex_device (HokuyoDriver ex_config 0)) = OPENED"
    by (simp add: doOpen_state open_succeeds_def open_failure_def ex_device_def)
  have c: "corrupted_scan_count (doOpen ex_device (HokuyoDriver ex_config 0)) = 0"
    "threads_spawned (doOpen ex_device (HokuyoDriver ex_config 0)) = 0"
    "scan_thread (doOpen ex_device (HokuyoDriver ex_config 0)) = None"
    by (simp_all add: doOpen_frame HokuyoDriver_def)
  show ?thesis
    using doStart_rejected [OF r, of "doOpen ex_device (HokuyoDriver ex_config 0)"] r o c
    by simp
qed

text \<open>
  C5, as the code has it. On a driver object constructed with the calibration flag unset,
  after any run of calls (open, close, start, stop) and thread steps that does not abort:
  at most one call of the calibration routine has returned; no calibration call follows one
  that returned (calls that threw may precede it); the flag is set exactly when a
  calibration call has returned; and close does not change the flag.
\<close>

theorem calibration_amended:
  assumes "exec evs (HokuyoDriver cfg sc) = Inr d"
  shows "length (calibrations_done (laser d)) \<le> 1
    \<and> calibrated_once (laser d)
    \<and> (calibrated d \<longleftrightarrow> calibrations_done (laser d) \<noteq> [])
    \<and> (\<forall>e. calibrated (doClose e d) = calibrated d)"
proof -
  have "calibration_inv (HokuyoDriver cfg sc)"
    by (simp add: calibration_inv_def calibrated_once_def calibrations_done_def
        calibrations_def HokuyoDriver_def)
  from calibration_inv_exec [OF this assms] have inv: "calibrated_once (laser d)"
    "calibrated d \<longleftrightarrow> calibrations_done (laser d) \<noteq> []"
    by (simp_all add: calibration_inv_def)
  from inv calibrated_once_done [OF inv(1)] show ?thesis
    by (simp add: doClose_fields)
qed

lemma ex_calibration_run:
  "exec [Open ex_no_calibration, Close ex_device, Open ex_device] (HokuyoDriver ex_config 0)
     = Inr (doOpen ex_device (doClose ex_device (doOpen ex_no_calibration (HokuyoDriver ex_config 0))))"
  by simp

lemma ex_calibration_calls:
  "laser (doOpen ex_device (doClose ex_device (doOpen ex_no_calibration (HokuyoDriver ex_config 0))))
     = [(Laser_open ''/dev/ttyACM0'' False, True), (Laser_getID, True), (Laser_getStatus, True),
        (Laser_laserOn, True), (Laser_calcLatency True (- 1) 1 1 1, False), (Laser_close, True),
        (Laser_close, True),
        (Laser_open ''/dev/ttyACM0'' False, True), (Laser_getID, True), (Laser_getStatus, True),
        (Laser_laserOn, True), (Laser_calcLatency True (- 1) 1 1 1, True)]"
  by (simp add: doOpen_def doOpen_try_def doClose_def getID_def call_def called_def
      done_try_def Let_def HokuyoDriver_def ex_config_def ex_device_def ex_no_calibration_def)

text \<open>
  On the example: an open whose calibration throws, a close, and an open whose calibration
  returns.
\<close>

theorem calibration_amended_witness:
  "\<not> isl (exec [Open ex_no_calibration, Close ex_device, Open ex_device] (HokuyoDriver ex_config 0))
   \<and> calibrations_done (laser (projr (exec [Open ex_no_calibration, Close ex_device, Open ex_device]
        (HokuyoDriver ex_config 0)))) = [(Laser_calcLatency True (- 1) 1 1 1, True)]
   \<and> calibrated_once (laser (projr (exec [Open ex_no_calibration, Close ex_device, Open ex_device]
        (HokuyoDriver ex_config 0))))
   \<and> calibrated (projr (exec [Open ex_no_calibration, Close ex_device, Open ex_device]
        (HokuyoDriver ex_config 0)))"
proof -
  let ?d = "doOpen ex_device (doClose ex_device (doOpen ex_no_calibration (HokuyoDriver ex_config 0)))"
  have dn: "calibrations_done (laser ?d) = [(Laser_calcLatency True (- 1) 1 1 1, True)]"
    by (simp add: ex_calibration_calls calibrations_done_def)
  from calibration_amended [OF ex_calibration_run] dn show ?thesis
    by (simp add: ex_calibration_run del: exec.simps)
qed

text \<open>
  C5 as the claim states it fails across an intervening failure: in the same run the
  calibration routine of the device is called twice, the first call throwing.
\<close>

theorem calibration_counterexample:
  "exec [Open ex_no_calibration, Close ex_device, Open ex_device] (HokuyoDriver ex_config 0)
     = Inr (doOpen ex_device (doClose ex_device (doOpen ex_no_calibration (HokuyoDriver ex_config 0))))
   \<and> calibrations (laser (doOpen ex_device (doClose ex_device
        (doOpen ex_no_calibration (HokuyoDriver ex_config 0)))))
       = [(Laser_calcLatency True (- 1) 1 1 1, False), (Laser_calcLatency True (- 1) 1 1 1, True)]
   \<and> length (calibrations (laser (doOpen ex_device (doClose ex_device
        (doOpen ex_no_calibration (HokuyoDriver ex_config 0)))))) = 2"
  by (simp add: ex_calibration_calls calibrations_def)

text \<open>
  C6. When the frame request of the acquisition loop raises a corrupted-data fault, the
  iteration is skipped and the loop goes on: the step changes nothing but the record of
  calls and the thread's place, which is back at the test of the loop; the state, the count
  of corrupted scans and the frames passed to the callback are unchanged (no callback for
  the corrupted frame); and while the state is \<open>Running\<close> the next request that delivers
  a frame passes it to the callback.
\<close>

theorem transient_fault_skipped:
  assumes "scan_thread d = Some InServiceScan" and "transient_fault e"
  shows "scanThread_step e d =
           Inr (d\<lparr>laser := laser d @ [(Laser_serviceScan, False)],
                   scan_thread := Some AtLoopHead\<rparr>)
    \<and> (\<forall>d'. scanThread_step e d = Inr d' \<longrightarrow>
          state d' = state d \<and> corrupted_scan_count d' = corrupted_scan_count d
          \<and> useScan d' = useScan d \<and> scan_thread d' = Some AtLoopHead)
    \<and> (state d = RUNNING \<longrightarrow>
         (\<forall>h s F. delivers s F \<longrightarrow>
            (\<exists>d''. scanThread [e, h, s] d = Inr d''
               \<and> useScan d'' = useScan d @ [F] \<and> state d'' = RUNNING
               \<and> corrupted_scan_count d'' = corrupted_scan_count d
               \<and> scan_thread d'' = Some AtLoopHead)))"
  using assms
  by (simp add: scanThread_step_transient scanThread_step_head scanThread_step_delivers)

text \<open>
  The driver of the example, running and waiting for its first frame: a corrupted frame,
  then frame 7.
\<close>

theorem transient_fault_skipped_witness:
  "scan_thread ex_running = Some InServiceScan \<and> state ex_running = RUNNING
   \<and> transient_fault ex_corrupted \<and> delivers (ex_frame 7) 7
   \<and> \<not> isl (scanThread_step ex_corrupted ex_running)
   \<and> state (projr (scanThread_step ex_corrupted ex_running)) = RUNNING
   \<and> useScan (projr (scanThread_step ex_corrupted ex_running)) = []
   \<and> sint (corrupted_scan_count (projr (scanThread_step ex_corrupted ex_running))) = 0
   \<and> \<not> isl (scanThread [ex_corrupted, ex_device, ex_frame 7] ex_running)
   \<and> useScan (projr (scanThread [ex_corrupted, ex_device, ex_frame 7] ex_running)) = [7]"
proof -
  have t: "scan_thread ex_running = Some InServiceScan"
    by (simp add: ex_running_def)
  have f: "transient_fault ex_corrupted"
    by (simp add: transient_fault_def ex_corrupted_def)
  have r: "state ex_running = RUNNING"
    by (simp add: ex_running_def doStart_state start_succeeds_def ex_device_def)
  have u: "useScan ex_running = []" "corrupted_scan_count ex_running = 0"
    by (simp_all add: ex_running_def doStart_frame doOpen_frame HokuyoDriver_def
        doStart_cases start_failure_def doStart_try_def call_def called_def done_try_def
        ex_device_def)
  have g: "delivers (ex_frame 7) 7"
    by (simp add: delivers_def ex_frame_def)
  note th = transient_fault_skipped [OF t f]
  have one: "scanThread_step ex_corrupted ex_running =
      Inr (ex_running\<lparr>laser := laser ex_running @ [(Laser_serviceScan, False)],
             scan_thread := Some AtLoopHead\<rparr>)"
    by (rule th [THEN conjunct1])
  obtain d'' where two: "scanThread [ex_corrupted, ex_device, ex_frame 7] ex_running = Inr d''"
    and three: "useScan d'' = useScan ex_running @ [7]"
    using th [THEN conjunct2, THEN conjunct2, rule_format, OF r g, of ex_device]
    by blast
  show ?thesis
    by (simp add: t f r g u one two three del: scanThread.simps)
qed




text \<open>
  C8, as the code has it. \<open>connect_fail_\<close> of the driver is assigned in the two \<open>catch\<close>
  blocks only: after an open or a start that a device exception ends it is the message of
  that exception, and every other call leaves it as it was. In particular an open that
  succeeds ends in \<open>Opened\<close> with the string unchanged (it is not cleared), and neither
  close, stop nor a step of the acquisition thread touches it.
\<close>

theorem connect_fail_amended:
  "connect_fail (doOpen e d)
     = (case open_failure e d of None \<Rightarrow> connect_fail d | Some x \<Rightarrow> what x)
   \<and> connect_fail (doStart e d)
     = (case start_failure e of None \<Rightarrow> connect_fail d | Some x \<Rightarrow> what x)
   \<and> (open_succeeds e d \<longrightarrow>
        state (doOpen e d) = OPENED \<and> connect_fail (doOpen e d) = connect_fail d)
   \<and> connect_fail (doClose e d) = connect_fail d
   \<and> (\<forall>d'. doStop sched d = Inr d' \<longrightarrow> connect_fail d' = connect_fail d)
   \<and> (\<forall>d'. scanThread_step e d = Inr d' \<longrightarrow> connect_fail d' = connect_fail d)"
  by (simp add: doOpen_connect_fail doStart_connect_fail doOpen_state open_succeeds_def
      doClose_fields doStop_connect_fail scanThread_step_frame)

text \<open>
  On the example: an open that fails on the port, then an open that succeeds.
\<close>

theorem connect_fail_amended_witness:
  "open_failure ex_no_port (HokuyoDriver ex_config 0) = Some (Exception ''Failed to open port'')
   \<and> connect_fail (doOpen ex_no_port (HokuyoDriver ex_config 0)) = ''Failed to open port''
   \<and> open_succeeds ex_device (doOpen ex_no_port (HokuyoDriver ex_config 0))
   \<and> state (doOpen ex_device (doOpen ex_no_port (HokuyoDriver ex_config 0))) = OPENED
   \<and> connect_fail (doOpen ex_device (doOpen ex_no_port (HokuyoDriver ex_config 0)))
       = connect_fail (doOpen ex_no_port (HokuyoDriver ex_config 0))"
proof -
  let ?d = "doOpen ex_no_port (HokuyoDriver ex_config 0)"
  have f: "open_failure ex_no_port (HokuyoDriver ex_config 0)
      = Some (Exception ''Failed to open port'')"
    by (simp add: open_failure_def ex_no_port_def ex_device_def)
  have n: "open_failure ex_device ?d = None"
    by (simp add: open_failure_def ex_device_def)
  then have o: "open_succeeds ex_device ?d"
    by (simp add: open_succeeds_def)
  from connect_fail_amended [of ex_no_port "HokuyoDriver ex_config 0" Nil]
    connect_fail_amended [of ex_device ?d Nil] f n o
  show ?thesis
    by simp
qed

text \<open>
  C8 as the claim states it fails: after the failed open the next open succeeds, the state
  is \<open>Opened\<close>, and the stored string is still the message of the failure, not empty.
\<close>

theorem connect_fail_counterexample:
  "state (doOpen ex_no_port (HokuyoDriver ex_config 0)) = CLOSED
   \<and> open_succeeds ex_device (doOpen ex_no_port (HokuyoDriver ex_config 0))
   \<and> state (doOpen ex_device (doOpen ex_no_port (HokuyoDriver ex_config 0))) = OPENED
   \<and> connect_fail (doOpen ex_device (doOpen ex_no_port (HokuyoDriver ex_config 0)))
       = ''Failed to open port''
   \<and> connect_fail (doOpen ex_device (doOpen ex_no_port (HokuyoDriver ex_config 0))) \<noteq> []"
proof -
  let ?d = "doOpen ex_no_port (HokuyoDriver ex_config 0)"
  have f: "open_failure ex_no_port (HokuyoDriver ex_config 0)
      = Some (Exception ''Failed to open port'')"
    by (simp add: open_failure_def ex_no_port_def ex_device_def)
  have o: "open_failure ex_device ?d = None"
    by (simp add: open_failure_def ex_device_def)
  show ?thesis
    by (simp add: doOpen_state doOpen_connect_fail open_succeeds_def f o)
qed

text \<open>
  C9 at a failing input. A node is constructed and the open of its driver fails on the
  port. The driver is \<open>Closed\<close> and has stored the message in its \<open>connect_fail_\<close>, but
  the summary of \<open>connectionStatus\<close> is level 2 with the text "Not connected. " and
  nothing after it: the string appended is the node's own \<open>connect_fail_\<close>, which is
  never assigned. (The order of the tests and the other four cases are as the claim says:
  lemma \<open>connectionStatus_mapping\<close>.)
\<close>

theorem connectionStatus_failure_string:
  "state (driver (on_driver (doOpen ex_no_port) (HokuyoNode ex_config 0))) = CLOSED
   \<and> connect_fail (driver (on_driver (doOpen ex_no_port) (HokuyoNode ex_config 0)))
       = ''Failed to open port''
   \<and> connectionStatus (on_driver (doOpen ex_no_port) (HokuyoNode ex_config 0))
       = (2, ''Not connected. '')"
proof -
  have f: "open_failure ex_no_port (HokuyoDriver ex_config 0)
      = Some (Exception ''Failed to open port'')"
    by (simp add: open_failure_def ex_no_port_def ex_device_def)
  have d: "driver (on_driver (doOpen ex_no_port) (HokuyoNode ex_config 0))
      = doOpen ex_no_port (HokuyoDriver ex_config 0)"
    by (simp add: on_driver_def HokuyoNode_def)
  show ?thesis
    by (simp add: connectionStatus_mapping node_connect_fail_on_driver d doOpen_state
        doOpen_connect_fail open_succeeds_def f)
qed

text \<open>
  C10. For every identity string that the device returns, \<open>getID\<close> returns the literal
  string "unknown" when the device reports "H0000000", and the device's string unchanged in
  every other case. (An exception of the device's \<open>getID\<close> is passed on.)
\<close>

theorem getID_unknown:
  "fst (getID e d) =
     (case getID_r e of
        Returns ident \<Rightarrow> Inr (if ident = ''H0000000'' then ''unknown'' else ident)
      | Throws x \<Rightarrow> Inl x)"
  by (simp add: getID_def Let_def split: outcome.splits)


end
